theory Spec2Isabelle
  imports Complex_Main "HOL-Library.Log_Nat" "HOL-Library.Char_ord" "HOL-Library.List_Lexorder"
    "HOL-Library.Multiset"
begin

section \<open>Python values used by the calculator\<close>

subsection \<open>Exceptions\<close>

text \<open>
  The exceptions the modelled code can raise.  \<open>Unmodelled\<close> marks the one place where
  this development does not follow Python: sorting keys that are not all strings.
\<close>

datatype py_error =
    OverflowError | ValueError | ZeroDivisionError | TypeError | AttributeError
  | FileNotFoundError | NotADirectoryError | FileExistsError | Unmodelled

subsection \<open>Binary64 floating point\<close>

text \<open>
  A Python \<open>float\<close> is an IEEE 754 binary64 number.  A finite value is kept as the
  rational it denotes (\<open>Fin 0\<close> is \<open>+0.0\<close>, \<open>MZero\<close> is \<open>-0.0\<close>); every operation computes
  the exact rational result and rounds it to the nearest binary64 value, ties to even.
\<close>

datatype double = Fin rat | MZero | PInf | MInf | NaN

definition pow2 :: "int \<Rightarrow> rat" where
  "pow2 e = 2 powi e"

text \<open>\<open>flog2 x\<close> is the binary exponent of a positive rational: \<open>2^e \<le> x < 2^(e+1)\<close>.\<close>

definition flog2 :: "rat \<Rightarrow> int" where
  "flog2 x = (case quotient_of x of (p, q) \<Rightarrow>
     (let e0 = bitlen p - bitlen q in if pow2 e0 \<le> x then e0 else e0 - 1))"

definition round_half_even :: "rat \<Rightarrow> int" where
  "round_half_even x =
     (let f = \<lfloor>x\<rfloor>; d = x - of_int f
      in if d < 1 / 2 then f else if 1 / 2 < d then f + 1 else if even f then f else f + 1)"

text \<open>
  The exponent of the last place of a binary64 number of magnitude \<open>x\<close>: 53 significant
  bits for a normal number, \<open>2^-1074\<close> for a subnormal one.
\<close>

definition ulp_exp :: "rat \<Rightarrow> int" where
  "ulp_exp x = max (flog2 \<bar>x\<bar> - 52) (- 1074)"

definition round_to_double :: "rat \<Rightarrow> rat" where
  "round_to_double x =
     (if x = 0 then 0 else of_int (round_half_even (x / pow2 (ulp_exp x))) * pow2 (ulp_exp x))"

text \<open>The values of the finite binary64 numbers.\<close>

definition is_double :: "rat \<Rightarrow> bool" where
  "is_double x =
     (x = 0 \<or> (of_int \<lfloor>x / pow2 (ulp_exp x)\<rfloor> = x / pow2 (ulp_exp x) \<and> \<bar>x\<bar> < 2 ^ 1024))"

text \<open>Rounding an exact result; overflow gives an infinity, underflow a signed zero.\<close>

definition fl :: "rat \<Rightarrow> double" where
  "fl x =
     (let y = round_to_double x
      in if 2 ^ 1024 \<le> \<bar>y\<bar> then (if x < 0 then MInf else PInf)
         else if y = 0 then (if x < 0 then MZero else Fin 0)
         else Fin y)"

text \<open>
  The datatype has more finite values than binary64 has; \<open>is_binary64\<close> marks the ones
  that are floats.  Every operation below returns such a value.
\<close>

fun is_binary64 :: "double \<Rightarrow> bool" where
  "is_binary64 (Fin x) = is_double x"
| "is_binary64 _ = True"

text \<open>A float literal of the source: the decimal, correctly rounded.\<close>

definition float_lit :: "rat \<Rightarrow> double" where
  "float_lit x = fl x"

fun is_finite :: "double \<Rightarrow> bool" where
  "is_finite (Fin _) = True"
| "is_finite MZero = True"
| "is_finite _ = False"

fun val :: "double \<Rightarrow> rat" where
  "val (Fin x) = x"
| "val _ = 0"

fun sign_bit :: "double \<Rightarrow> bool" where
  "sign_bit (Fin x) = (x < 0)"
| "sign_bit MZero = True"
| "sign_bit MInf = True"
| "sign_bit _ = False"

definition signed_zero :: "bool \<Rightarrow> double" where
  "signed_zero neg = (if neg then MZero else Fin 0)"

definition signed_inf :: "bool \<Rightarrow> double" where
  "signed_inf neg = (if neg then MInf else PInf)"

fun fneg :: "double \<Rightarrow> double" where
  "fneg (Fin x) = (if x = 0 then MZero else Fin (- x))"
| "fneg MZero = Fin 0"
| "fneg PInf = MInf"
| "fneg MInf = PInf"
| "fneg NaN = NaN"

definition fadd :: "double \<Rightarrow> double \<Rightarrow> double" where
  "fadd a b =
     (if a = NaN \<or> b = NaN then NaN
      else if \<not> is_finite a then (if \<not> is_finite b \<and> a \<noteq> b then NaN else a)
      else if \<not> is_finite b then b
      else if val a + val b = 0 then signed_zero (sign_bit a \<and> sign_bit b)
      else fl (val a + val b))"

definition fsub :: "double \<Rightarrow> double \<Rightarrow> double" where
  "fsub a b = fadd a (fneg b)"

definition fmul :: "double \<Rightarrow> double \<Rightarrow> double" where
  "fmul a b =
     (if a = NaN \<or> b = NaN then NaN
      else if \<not> is_finite a \<or> \<not> is_finite b then
        (if (is_finite a \<and> val a = 0) \<or> (is_finite b \<and> val b = 0) then NaN
         else signed_inf (sign_bit a \<noteq> sign_bit b))
      else if val a * val b = 0 then signed_zero (sign_bit a \<noteq> sign_bit b)
      else fl (val a * val b))"

text \<open>Python's \<open>/\<close> on floats raises on a zero divisor instead of returning an infinity.\<close>

definition py_truediv :: "double \<Rightarrow> double \<Rightarrow> py_error + double" where
  "py_truediv a b =
     (if is_finite b \<and> val b = 0 then Inl ZeroDivisionError
      else if a = NaN \<or> b = NaN then Inr NaN
      else if \<not> is_finite a then
        (if \<not> is_finite b then Inr NaN else Inr (signed_inf (sign_bit a \<noteq> sign_bit b)))
      else if \<not> is_finite b \<or> val a = 0 then Inr (signed_zero (sign_bit a \<noteq> sign_bit b))
      else Inr (fl (val a / val b)))"

text \<open>Python's \<open>a < b\<close> on floats: false whenever a NaN is involved, \<open>-0.0 < 0.0\<close> is false.\<close>

fun flt :: "double \<Rightarrow> double \<Rightarrow> bool" where
  "flt NaN _ = False"
| "flt _ NaN = False"
| "flt PInf _ = False"
| "flt _ MInf = False"
| "flt _ PInf = True"
| "flt MInf _ = True"
| "flt a b = (val a < val b)"

text \<open>\<open>max(a, b)\<close> keeps its first argument unless the second compares greater.\<close>

definition py_max :: "double \<Rightarrow> double \<Rightarrow> double" where
  "py_max a b = (if flt a b then b else a)"

text \<open>
  Converting an \<open>int\<close> operand of a float operation: correctly rounded, and
  \<open>OverflowError\<close> (int too large to convert to float) when the result is not finite.
\<close>

definition float_of_int :: "int \<Rightarrow> py_error + double" where
  "float_of_int n =
     (if n = 0 then Inr (Fin 0)
      else (case fl (of_int n) of Fin y \<Rightarrow> Inr (Fin y) | _ \<Rightarrow> Inl OverflowError))"

text \<open>
  \<open>round(x)\<close> with one argument, as CPython computes it: round half away from zero, then
  repair a tie by rounding half of \<open>x\<close> and doubling.  A NaN raises \<open>ValueError\<close>, an
  infinity \<open>OverflowError\<close>.
\<close>

definition c_round :: "rat \<Rightarrow> int" where
  "c_round x = (if 0 \<le> x then \<lfloor>x + 1 / 2\<rfloor> else \<lceil>x - 1 / 2\<rceil>)"

fun py_round :: "double \<Rightarrow> py_error + int" where
  "py_round NaN = Inl ValueError"
| "py_round PInf = Inl OverflowError"
| "py_round MInf = Inl OverflowError"
| "py_round MZero = Inr 0"
| "py_round (Fin x) =
     (let rounded = c_round x
      in if \<bar>x - of_int rounded\<bar> = 1 / 2 then Inr (2 * c_round (x / 2)) else Inr rounded)"


subsection \<open>Strings\<close>

text \<open>
  \<open>str.lower()\<close>.  Only the letters \<open>A\<close> to \<open>Z\<close> are mapped; no character outside
  ASCII lowers to one of the letters of \<open>male\<close>, so the comparison of the source is
  decided by this mapping.
\<close>

definition lower_char :: "char \<Rightarrow> char" where
  "lower_char c =
     (if CHR ''A'' \<le> c \<and> c \<le> CHR ''Z'' then char_of (of_char c + (32 :: nat)) else c)"

definition lower :: "string \<Rightarrow> string" where
  "lower s = map lower_char s"

section \<open>The calculation engine\<close>

text \<open>
  \<open>calculate_bmr_mifflin_st_jeor\<close>: the only operation that can raise is the conversion
  of the integer age in \<open>5.0 * age_years\<close>.
\<close>

definition calculate_bmr_mifflin_st_jeor ::
    "double \<Rightarrow> double \<Rightarrow> int \<Rightarrow> string \<Rightarrow> py_error + double" where
  "calculate_bmr_mifflin_st_jeor weight_kg height_cm age_years gender =
     (case float_of_int age_years of
        Inl err \<Rightarrow> Inl err
      | Inr age \<Rightarrow>
          (let base = fsub (fadd (fmul (float_lit 10) weight_kg)
                                 (fmul (float_lit (625 / 100)) height_cm))
                           (fmul (float_lit 5) age)
           in if lower gender = ''male'' then Inr (fadd base (float_lit 5))
              else Inr (fsub base (float_lit 161))))"

text \<open>\<open>activity_multiplier\<close>: the dictionary literal and \<open>mapping.get(level, 1.2)\<close>.\<close>

definition mapping :: "(string \<times> double) list" where
  "mapping =
     [(''sedentary'', float_lit (12 / 10)),
      (''light'', float_lit (1375 / 1000)),
      (''moderate'', float_lit (155 / 100)),
      (''very'', float_lit (1725 / 1000)),
      (''extra'', float_lit (19 / 10))]"

definition activity_multiplier :: "string \<Rightarrow> double" where
  "activity_multiplier level =
     (case map_of mapping level of Some m \<Rightarrow> m | None \<Rightarrow> float_lit (12 / 10))"

record macros =
  protein_g :: double
  fat_g :: double
  carb_g :: double

definition compute_macros :: "double \<Rightarrow> double \<Rightarrow> py_error + macros" where
  "compute_macros total_calories weight_kg =
     (let protein_grams = fmul (float_lit (18 / 10)) weight_kg;
          fat_grams = fmul (float_lit (8 / 10)) weight_kg;
          protein_cal = fmul protein_grams (float_lit 4);
          fat_cal = fmul fat_grams (float_lit 9);
          remaining_cal_for_carbs =
            py_max (fsub total_calories (fadd protein_cal fat_cal)) (float_lit 0)
      in case py_truediv remaining_cal_for_carbs (float_lit 4) of
           Inl err \<Rightarrow> Inl err
         | Inr carb_grams \<Rightarrow>
             Inr \<lparr>protein_g = protein_grams, fat_g = fat_grams, carb_g = carb_grams\<rparr>)"

text \<open>The \<open>result\<close> dictionary built by \<open>calculate\<close>.\<close>

record calc_result =
  res_calories :: int
  res_protein_g :: int
  res_fat_g :: int
  res_carb_g :: int
  res_bmr :: int
  res_activity_multiplier :: double

text \<open>
  Steps 1 to 3 of \<open>calculate\<close> and the rounding of the values for display.  The dictionary
  entries are evaluated in the order written, so the first \<open>round\<close> that raises decides
  the exception.
\<close>

definition calculate_result ::
    "double \<Rightarrow> double \<Rightarrow> int \<Rightarrow> string \<Rightarrow> string \<Rightarrow> py_error + calc_result" where
  "calculate_result height_cm weight_kg age_years gender activity_level =
     (case calculate_bmr_mifflin_st_jeor weight_kg height_cm age_years gender of
        Inl err \<Rightarrow> Inl err
      | Inr bmr \<Rightarrow>
          (let multiplier = activity_multiplier activity_level;
               tdee = fmul bmr multiplier
           in case compute_macros tdee weight_kg of
                Inl err \<Rightarrow> Inl err
              | Inr macros \<Rightarrow>
                  (case py_round tdee of Inl err \<Rightarrow> Inl err | Inr c \<Rightarrow>
                   case py_round (protein_g macros) of Inl err \<Rightarrow> Inl err | Inr p \<Rightarrow>
                   case py_round (fat_g macros) of Inl err \<Rightarrow> Inl err | Inr f \<Rightarrow>
                   case py_round (carb_g macros) of Inl err \<Rightarrow> Inl err | Inr cb \<Rightarrow>
                   case py_round bmr of Inl err \<Rightarrow> Inl err | Inr b \<Rightarrow>
                     Inr \<lparr>res_calories = c, res_protein_g = p, res_fat_g = f,
                          res_carb_g = cb, res_bmr = b,
                          res_activity_multiplier = multiplier\<rparr>)))"

section \<open>The entry store\<close>

subsection \<open>JSON values and the storage file\<close>

text \<open>
  What \<open>json.loads\<close> can return.  An object keeps its members in insertion order, one
  member per key.
\<close>

datatype json =
    JNull
  | JBool bool
  | JInt int
  | JFloat double
  | JStr string
  | JArr "json list"
  | JObj "(string \<times> json) list"

text \<open>
  \<open>json.loads\<close> and \<open>json.dumps(_, ensure_ascii=False, indent=2)\<close> belong to the Python
  library, not to this program: they are parameters.  \<open>json_loads\<close> returns \<open>None\<close> where
  the library raises.
\<close>

record json_lib =
  json_loads :: "string \<Rightarrow> json option"
  json_dumps :: "json \<Rightarrow> string"

text \<open>
  The state of \<open>data/users.json\<close>: the directory \<open>data\<close> is missing, the name \<open>data\<close> is
  taken by a regular file, the directory is there without the file, or the file is there
  with its text.  Permissions and other failures of the operating system are not modelled.
\<close>

datatype storage = NoDir | NotADir | NoFile | File string

text \<open>\<open>DATA_DIR.exists()\<close> and \<open>DATA_FILE.exists()\<close>; neither raises.\<close>

fun data_dir_exists :: "storage \<Rightarrow> bool" where
  "data_dir_exists NoDir = False"
| "data_dir_exists _ = True"

fun data_file_exists :: "storage \<Rightarrow> bool" where
  "data_file_exists (File _) = True"
| "data_file_exists _ = False"

text \<open>
  \<open>DATA_DIR.mkdir(parents=True, exist_ok=True)\<close>: an existing directory is accepted, an
  existing regular file is not.
\<close>

fun mkdir :: "storage \<Rightarrow> py_error + storage" where
  "mkdir NoDir = Inr NoFile"
| "mkdir NotADir = Inl FileExistsError"
| "mkdir s = Inr s"

text \<open>\<open>DATA_FILE.write_text\<close>: it needs the directory.\<close>

fun write_text :: "storage \<Rightarrow> string \<Rightarrow> py_error + storage" where
  "write_text NoDir text = Inl FileNotFoundError"
| "write_text NotADir text = Inl NotADirectoryError"
| "write_text NoFile text = Inr (File text)"
| "write_text (File old) text = Inr (File text)"

text \<open>\<open>DATA_FILE.read_text\<close>.\<close>

fun read_text :: "storage \<Rightarrow> py_error + string" where
  "read_text (File text) = Inr text"
| "read_text NotADir = Inl NotADirectoryError"
| "read_text _ = Inl FileNotFoundError"

subsection \<open>Loading and appending\<close>

text \<open>
  \<open>_ensure_data_file_exists\<close>: an exception of \<open>mkdir\<close> or \<open>write_text\<close> leaves the
  function.
\<close>

definition ensure_data_file_exists :: "storage \<Rightarrow> (py_error + unit) \<times> storage" where
  "ensure_data_file_exists s =
     (case (if \<not> data_dir_exists s then mkdir s else Inr s) of
        Inl err \<Rightarrow> (Inl err, s)
      | Inr s1 \<Rightarrow>
          if \<not> data_file_exists s1 then
            (case write_text s1 ''[]'' of
               Inl err \<Rightarrow> (Inl err, s1)
             | Inr s2 \<Rightarrow> (Inr (), s2))
          else (Inr (), s1))"

text \<open>
  \<open>load_users\<close>: \<open>_ensure_data_file_exists()\<close> is called before the \<open>try\<close>, so its
  exception leaves \<open>load_users\<close>; every exception of reading and parsing is caught and
  gives \<open>[]\<close>.
\<close>

definition load_users :: "json_lib \<Rightarrow> storage \<Rightarrow> (py_error + json) \<times> storage" where
  "load_users lib s =
     (case ensure_data_file_exists s of
        (Inl err, s1) \<Rightarrow> (Inl err, s1)
      | (Inr u, s1) \<Rightarrow>
          (case read_text s1 of
             Inl err \<Rightarrow> Inr (JArr [])
           | Inr text \<Rightarrow> (case json_loads lib text of None \<Rightarrow> Inr (JArr []) | Some v \<Rightarrow> Inr v),
           s1))"

text \<open>\<open>data.append(entry)\<close>: only a list has the method.\<close>

fun py_append :: "json \<Rightarrow> json \<Rightarrow> py_error + json" where
  "py_append (JArr xs) entry = Inr (JArr (xs @ [entry]))"
| "py_append _ entry = Inl AttributeError"

definition save_user_entry :: "json_lib \<Rightarrow> json \<Rightarrow> storage \<Rightarrow> (py_error + unit) \<times> storage" where
  "save_user_entry lib entry s =
     (case ensure_data_file_exists s of
        (Inl err, s1) \<Rightarrow> (Inl err, s1)
      | (Inr u, s1) \<Rightarrow>
          (case load_users lib s1 of
             (Inl err, s2) \<Rightarrow> (Inl err, s2)
           | (Inr data, s2) \<Rightarrow>
               (case py_append data entry of
                  Inl err \<Rightarrow> (Inl err, s2)
                | Inr data' \<Rightarrow>
                    (case write_text s2 (json_dumps lib data') of
                       Inl err \<Rightarrow> (Inl err, s2)
                     | Inr s3 \<Rightarrow> (Inr (), s3)))))"

subsection \<open>Listing\<close>

text \<open>Iterating over the loaded value, as \<open>sorted\<close> does with its first argument.\<close>

fun py_iter :: "json \<Rightarrow> py_error + json list" where
  "py_iter (JArr xs) = Inr xs"
| "py_iter (JObj kvs) = Inr (map (\<lambda>kv. JStr (fst kv)) kvs)"
| "py_iter (JStr t) = Inr (map (\<lambda>c. JStr [c]) t)"
| "py_iter _ = Inl TypeError"

text \<open>The sort key \<open>lambda u: u.get("timestamp", "")\<close>; only an object has \<open>get\<close>.\<close>

fun timestamp_key :: "json \<Rightarrow> py_error + json" where
  "timestamp_key (JObj kvs) =
     (case map_of kvs ''timestamp'' of Some v \<Rightarrow> Inr v | None \<Rightarrow> Inr (JStr []))"
| "timestamp_key _ = Inl AttributeError"

text \<open>The key function is called once for each element, in order, before any comparison.\<close>

fun keyed :: "(json \<Rightarrow> py_error + json) \<Rightarrow> json list \<Rightarrow> py_error + (json \<times> json) list" where
  "keyed key [] = Inr []"
| "keyed key (x # xs) =
     (case key x of
        Inl err \<Rightarrow> Inl err
      | Inr k \<Rightarrow> (case keyed key xs of Inl err \<Rightarrow> Inl err | Inr ks \<Rightarrow> Inr ((k, x) # ks)))"

fun string_keyed :: "(json \<times> json) list \<Rightarrow> (string \<times> json) list option" where
  "string_keyed [] = Some []"
| "string_keyed ((JStr k, x) # ks) =
     (case string_keyed ks of None \<Rightarrow> None | Some r \<Rightarrow> Some ((k, x) # r))"
| "string_keyed _ = None"

text \<open>
  \<open>sorted(xs, key=key, reverse=True)\<close>.  CPython reverses the list, sorts it stably in
  ascending key order and reverses it again; strings compare by code point, a proper
  prefix first.  With fewer than two elements nothing is compared.  Keys that are not all
  strings are outside this model.
\<close>

definition py_sorted_reverse ::
    "(json \<Rightarrow> py_error + json) \<Rightarrow> json list \<Rightarrow> py_error + json list" where
  "py_sorted_reverse key xs =
     (case keyed key xs of
        Inl err \<Rightarrow> Inl err
      | Inr ks \<Rightarrow>
          if length xs < 2 then Inr xs
          else (case string_keyed ks of
                  None \<Rightarrow> Inl Unmodelled
                | Some sks \<Rightarrow> Inr (map snd (rev (sort_key fst (rev sks))))))"

text \<open>\<open>dashboard\<close>, up to the list handed to the template.\<close>

definition dashboard :: "json_lib \<Rightarrow> storage \<Rightarrow> (py_error + json list) \<times> storage" where
  "dashboard lib s =
     (case load_users lib s of
        (Inl err, s1) \<Rightarrow> (Inl err, s1)
      | (Inr users, s1) \<Rightarrow>
          (case py_iter users of
             Inl err \<Rightarrow> (Inl err, s1)
           | Inr xs \<Rightarrow> (py_sorted_reverse timestamp_key xs, s1)))"

subsection \<open>The request handler\<close>

definition calc_result_json :: "calc_result \<Rightarrow> json" where
  "calc_result_json r =
     JObj [(''calories'', JInt (res_calories r)),
           (''protein_g'', JInt (res_protein_g r)),
           (''fat_g'', JInt (res_fat_g r)),
           (''carb_g'', JInt (res_carb_g r)),
           (''bmr'', JInt (res_bmr r)),
           (''activity_multiplier'', JFloat (res_activity_multiplier r))]"

text \<open>
  \<open>calculate\<close>: \<open>utcnow\<close> is the text of \<open>datetime.utcnow().isoformat()\<close>; the value returned
  is the result shown and the \<open>saved\<close> flag of the template context.
\<close>

definition calculate ::
    "json_lib \<Rightarrow> string \<Rightarrow> string \<Rightarrow> double \<Rightarrow> double \<Rightarrow> int \<Rightarrow> string \<Rightarrow> string \<Rightarrow>
     string option \<Rightarrow> storage \<Rightarrow> (py_error + calc_result \<times> bool) \<times> storage" where
  "calculate lib utcnow name height_cm weight_kg age_years gender activity_level save s =
     (case calculate_result height_cm weight_kg age_years gender activity_level of
        Inl err \<Rightarrow> (Inl err, s)
      | Inr result \<Rightarrow>
          (case save of
             None \<Rightarrow> (Inr (result, False), s)
           | Some _ \<Rightarrow>
               (let entry =
                      JObj [(''name'', JStr (if name = [] then ''Anonymous'' else name)),
                            (''timestamp'', JStr (utcnow @ ''Z'')),
                            (''inputs'',
                               JObj [(''height_cm'', JFloat height_cm),
                                     (''weight_kg'', JFloat weight_kg),
                                     (''age_years'', JInt age_years),
                                     (''gender'', JStr gender),
                                     (''activity_level'', JStr activity_level)]),
                            (''results'', calc_result_json result)]
                in case save_user_entry lib entry s of
                     (Inl err, s1) \<Rightarrow> (Inl err, s1)
                   | (Inr u, s1) \<Rightarrow> (Inr (result, True), s1))))"

section \<open>Notions of the specification\<close>

text \<open>
  Case-insensitive equality of two strings: the same length, and at each position the
  same character or the same letter of the alphabet in either case.
\<close>

definition letter_index :: "char \<Rightarrow> nat option" where
  "letter_index c =
     (let n = (of_char c :: nat)
      in if 65 \<le> n \<and> n \<le> 90 then Some (n - 65)
         else if 97 \<le> n \<and> n \<le> 122 then Some (n - 97)
         else None)"

definition equal_ignoring_case :: "char \<Rightarrow> char \<Rightarrow> bool" where
  "equal_ignoring_case c d =
     (c = d \<or> (case letter_index c of Some i \<Rightarrow> letter_index d = Some i | None \<Rightarrow> False))"

definition case_insensitive_equal :: "string \<Rightarrow> string \<Rightarrow> bool" where
  "case_insensitive_equal s t = list_all2 equal_ignoring_case s t"

text \<open>
  Rounding to the nearest integer, a tie going to the even neighbour: \<open>n\<close> is at most one
  half away from \<open>x\<close>, and when it is exactly one half away it is even.
\<close>

definition nearest_half_even :: "rat \<Rightarrow> int \<Rightarrow> bool" where
  "nearest_half_even x n =
     (\<bar>of_int n - x\<bar> \<le> 1 / 2 \<and> (\<bar>of_int n - x\<bar> = 1 / 2 \<longrightarrow> even n))"

text \<open>A list of strings in descending order.\<close>

definition descending :: "string list \<Rightarrow> bool" where
  "descending ks = sorted_wrt (\<lambda>a b. b \<le> a) ks"

text \<open>The timestamp of an entry as the listing reads it: the empty string when missing.\<close>

definition timestamp_of :: "json \<Rightarrow> string" where
  "timestamp_of u = (case timestamp_key u of Inr (JStr t) \<Rightarrow> t | _ \<Rightarrow> [])"

definition has_string_timestamp :: "json \<Rightarrow> bool" where
  "has_string_timestamp u = (case timestamp_key u of Inr (JStr t) \<Rightarrow> True | _ \<Rightarrow> False)"

section \<open>Sample data\<close>

definition entry_ann :: json where
  \<open>entry_ann = JObj [(''name'', JStr ''Ann''), (''timestamp'', JStr ''2024-01-15T10:30:00.123456Z'')]\<close>

definition entry_bob :: json where
  \<open>entry_bob = JObj [(''name'', JStr ''Bob''), (''timestamp'', JStr ''2024-02-01T08:00:00.000001Z'')]\<close>

definition entry_cy :: json where
  \<open>entry_cy = JObj [(''name'', JStr ''Cy'')]\<close>

text \<open>
  A finite fragment of the JSON library, enough to run the store on the sample entries:
  it writes and reads back the four collections below and rejects any other text.
\<close>

definition sample_texts :: "(json \<times> string) list" where
  \<open>sample_texts =
     [(JArr [], ''[]''),
      (JArr [entry_ann],
         ''[{"name": "Ann", "timestamp": "2024-01-15T10:30:00.123456Z"}]''),
      (JArr [entry_ann, entry_bob],
         ''[{"name": "Ann", "timestamp": "2024-01-15T10:30:00.123456Z"}, {"name": "Bob", "timestamp": "2024-02-01T08:00:00.000001Z"}]''),
      (JArr [entry_cy, entry_ann],
         ''[{"name": "Cy"}, {"name": "Ann", "timestamp": "2024-01-15T10:30:00.123456Z"}]'')]\<close>

definition sample_lib :: json_lib where
  "sample_lib =
     \<lparr>json_loads = (\<lambda>text. map_of (map (\<lambda>(v, t). (t, v)) sample_texts) text),
      json_dumps = (\<lambda>v. case map_of sample_texts v of Some t \<Rightarrow> t | None \<Rightarrow> ''null'')\<rparr>"

section \<open>Facts about rounding\<close>

lemma pow2_pos: "0 < pow2 e"
  by (simp add: pow2_def power_int_def)

lemma pow2_add: "pow2 (a + b) = pow2 a * pow2 b"
  by (simp add: pow2_def power_int_add)

lemma pow2_mono: "a \<le> b \<Longrightarrow> pow2 a \<le> pow2 b"
  by (simp add: pow2_def power_int_increasing)

lemma pow2_nat: "0 \<le> e \<Longrightarrow> pow2 e = 2 ^ nat e"
  by (simp add: pow2_def power_int_def)

text \<open>\<open>flog2\<close> is the binary exponent.\<close>

lemma flog2_bounds:
  assumes "0 < x"
  shows "pow2 (flog2 x) \<le> x \<and> x < pow2 (flog2 x + 1)"
proof -
  obtain p q where pq: "quotient_of x = (p, q)" by (cases "quotient_of x")
  have q: "0 < q" using pq by (rule quotient_of_denom_pos)
  have x: "x = of_int p / of_int q" using pq by (rule quotient_of_div)
  have p: "0 < p" using assms q x by (simp add: zero_less_divide_iff)
  define a where "a = bitlen p"
  define b where "b = bitlen q"
  have a: "2 ^ nat (a - 1) \<le> p" "p < 2 ^ nat a"
    using bitlen_bounds[OF p] by (simp_all add: a_def)
  have b: "2 ^ nat (b - 1) \<le> q" "q < 2 ^ nat b"
    using bitlen_bounds[OF q] by (simp_all add: b_def)
  have a1: "1 \<le> a" using p by (simp add: a_def bitlen_alt_def)
  have b1: "1 \<le> b" using q by (simp add: b_def bitlen_alt_def)
  have "(of_int (2 ^ nat (a - 1)) :: rat) \<le> of_int p" "(of_int p :: rat) < of_int (2 ^ nat a)"
    using a by (simp_all only: of_int_le_iff of_int_less_iff)
  then have ra: "pow2 (a - 1) \<le> of_int p" "(of_int p :: rat) < pow2 a"
    using a1 by (simp_all add: pow2_nat)
  have "(of_int (2 ^ nat (b - 1)) :: rat) \<le> of_int q" "(of_int q :: rat) < of_int (2 ^ nat b)"
    using b by (simp_all only: of_int_le_iff of_int_less_iff)
  then have rb: "pow2 (b - 1) \<le> of_int q" "(of_int q :: rat) < pow2 b"
    using b1 by (simp_all add: pow2_nat)
  have qpos: "(0::rat) < of_int q" using q by simp
  have up: "x < pow2 (a - b + 1)"
  proof -
    have "x * of_int q < pow2 a" using x qpos ra by simp
    also have "pow2 a = pow2 (a - b + 1) * pow2 (b - 1)" by (simp flip: pow2_add)
    also have "\<dots> \<le> pow2 (a - b + 1) * of_int q"
      using rb pow2_pos[of "a - b + 1"] by simp
    finally show ?thesis using qpos by simp
  qed
  have lo: "pow2 (a - b - 1) < x"
  proof -
    have "pow2 (a - b - 1) * of_int q < pow2 (a - b - 1) * pow2 b"
      using rb pow2_pos[of "a - b - 1"] by simp
    also have "\<dots> = pow2 (a - 1)" by (simp flip: pow2_add)
    also have "\<dots> \<le> x * of_int q" using x qpos ra by simp
    finally show ?thesis using qpos by simp
  qed
  show ?thesis
    using up lo by (simp add: flog2_def pq Let_def flip: a_def b_def)
qed

lemma flog2_unique:
  assumes "pow2 e \<le> x" "x < pow2 (e + 1)"
  shows "flog2 x = e"
proof -
  have x: "0 < x" using assms(1) pow2_pos[of e] by simp
  note fb = flog2_bounds[OF x]
  have "\<not> flog2 x < e"
  proof
    assume "flog2 x < e"
    then have "pow2 (flog2 x + 1) \<le> pow2 e" by (intro pow2_mono) simp
    with fb assms show False by simp
  qed
  moreover have "\<not> e < flog2 x"
  proof
    assume "e < flog2 x"
    then have "pow2 (e + 1) \<le> pow2 (flog2 x)" by (intro pow2_mono) simp
    with fb assms show False by simp
  qed
  ultimately show ?thesis by simp
qed

lemma floor_rat_div_numeral:
  "\<lfloor>numeral a / numeral b :: rat\<rfloor> = numeral a div numeral b"
  by (metis floor_divide_of_int_eq of_int_numeral)

lemma floor_rat_minus_div_numeral:
  "\<lfloor>- (numeral a / numeral b) :: rat\<rfloor> = - numeral a div numeral b"
  by (metis floor_divide_of_int_eq of_int_numeral of_int_minus minus_divide_left)

lemmas rhe_eval =
  pow2_def round_half_even_def Let_def floor_rat_div_numeral floor_rat_minus_div_numeral

lemma round_half_even_of_int: "round_half_even (of_int n) = n"
  by (simp add: round_half_even_def)

lemma round_half_even_nonneg: "0 \<le> x \<Longrightarrow> 0 \<le> round_half_even x"
  by (simp add: round_half_even_def Let_def)

lemma round_to_double_exact: "is_double x \<Longrightarrow> round_to_double x = x"
proof -
  assume d: "is_double x"
  show ?thesis
  proof (cases "x = 0")
    case True
    then show ?thesis by (simp add: round_to_double_def)
  next
    case False
    with d have "of_int \<lfloor>x / pow2 (ulp_exp x)\<rfloor> = x / pow2 (ulp_exp x)"
      by (simp add: is_double_def)
    then have "of_int (round_half_even (x / pow2 (ulp_exp x))) = x / pow2 (ulp_exp x)"
      by (metis round_half_even_of_int)
    then show ?thesis
      using False pow2_pos[of "ulp_exp x"] by (simp add: round_to_double_def)
  qed
qed

text \<open>An exact result that is a binary64 value is not changed by the rounding.\<close>

lemma fl_exact: "is_double x \<Longrightarrow> x \<noteq> 0 \<Longrightarrow> fl x = Fin x"
  unfolding fl_def Let_def
  by (simp only: round_to_double_exact) (simp add: is_double_def del: power_numeral)

lemma ulp_exp_eval:
  assumes "pow2 e \<le> \<bar>x\<bar>" "\<bar>x\<bar> < pow2 (e + 1)"
  shows "ulp_exp x = max (e - 52) (- 1074)"
  using flog2_unique[OF assms] by (simp add: ulp_exp_def)

text \<open>Evaluating a rounding once the binary exponent \<open>e\<close> of the argument is known.\<close>

lemma fl_eval:
  assumes "pow2 e \<le> \<bar>x\<bar>" "\<bar>x\<bar> < pow2 (e + 1)"
    and "u = max (e - 52) (- 1074)"
    and "y = of_int (round_half_even (x / pow2 u)) * pow2 u"
    and "y \<noteq> 0" "\<bar>y\<bar> < 2 ^ 1024"
  shows "fl x = Fin y"
proof -
  have "x \<noteq> 0" using assms(1) pow2_pos[of e] by auto
  then show ?thesis
    using assms(3-6) ulp_exp_eval[OF assms(1,2)]
    by (simp add: fl_def round_to_double_def Let_def)
qed

lemma is_double_eval:
  assumes "pow2 e \<le> \<bar>x\<bar>" "\<bar>x\<bar> < pow2 (e + 1)"
    and "u = max (e - 52) (- 1074)"
    and "of_int \<lfloor>x / pow2 u\<rfloor> = x / pow2 u" "\<bar>x\<bar> < 2 ^ 1024"
  shows "is_double x"
  using assms(3-5) ulp_exp_eval[OF assms(1,2)] by (simp add: is_double_def del: power_numeral)

subsection \<open>The literals of the source\<close>

text \<open>Stated for the fractions in lowest terms, the form the simplifier gives them.\<close>

lemma float_lit_0: "float_lit 0 = Fin 0"
  by (simp add: float_lit_def fl_def round_to_double_def)

lemma float_lit_4: "float_lit 4 = Fin 4"
  unfolding float_lit_def by (rule fl_eval[where e=2 and u="-50"]) (simp_all add: rhe_eval)

lemma float_lit_5: "float_lit 5 = Fin 5"
  unfolding float_lit_def by (rule fl_eval[where e=2 and u="-50"]) (simp_all add: rhe_eval)

lemma float_lit_9: "float_lit 9 = Fin 9"
  unfolding float_lit_def by (rule fl_eval[where e=3 and u="-49"]) (simp_all add: rhe_eval)

lemma float_lit_10: "float_lit 10 = Fin 10"
  unfolding float_lit_def by (rule fl_eval[where e=3 and u="-49"]) (simp_all add: rhe_eval)

lemma float_lit_161: "float_lit 161 = Fin 161"
  unfolding float_lit_def by (rule fl_eval[where e=7 and u="-45"]) (simp_all add: rhe_eval)

lemma float_lit_6_25: "float_lit (25 / 4) = Fin (25 / 4)"
  unfolding float_lit_def by (rule fl_eval[where e=2 and u="-50"]) (simp_all add: rhe_eval)

lemma float_lit_1_2: "float_lit (6 / 5) = Fin (5404319552844595 / 4503599627370496)"
  unfolding float_lit_def by (rule fl_eval[where e=0 and u="-52"]) (simp_all add: rhe_eval)

lemma float_lit_1_375: "float_lit (11 / 8) = Fin (11 / 8)"
  unfolding float_lit_def by (rule fl_eval[where e=0 and u="-52"]) (simp_all add: rhe_eval)

lemma float_lit_1_55: "float_lit (31 / 20) = Fin (6980579422424269 / 4503599627370496)"
  unfolding float_lit_def by (rule fl_eval[where e=0 and u="-52"]) (simp_all add: rhe_eval)

lemma float_lit_1_725: "float_lit (69 / 40) = Fin (3884354678607053 / 2251799813685248)"
  unfolding float_lit_def by (rule fl_eval[where e=0 and u="-52"]) (simp_all add: rhe_eval)

lemma float_lit_1_9: "float_lit (19 / 10) = Fin (4278419646001971 / 2251799813685248)"
  unfolding float_lit_def by (rule fl_eval[where e=0 and u="-52"]) (simp_all add: rhe_eval)

lemma float_lit_1_8: "float_lit (9 / 5) = Fin (8106479329266893 / 4503599627370496)"
  unfolding float_lit_def by (rule fl_eval[where e=0 and u="-52"]) (simp_all add: rhe_eval)

lemma float_lit_0_8: "float_lit (4 / 5) = Fin (3602879701896397 / 4503599627370496)"
  unfolding float_lit_def by (rule fl_eval[where e="-1" and u="-53"]) (simp_all add: rhe_eval)

lemmas float_lits =
  float_lit_0 float_lit_4 float_lit_5 float_lit_9 float_lit_10 float_lit_161 float_lit_6_25
  float_lit_1_2 float_lit_1_375 float_lit_1_55 float_lit_1_725 float_lit_1_9 float_lit_1_8
  float_lit_0_8

subsection \<open>Rounding to an integer\<close>

lemma c_round_close: "\<bar>of_int (c_round x) - x\<bar> \<le> 1 / 2"
proof (cases "0 \<le> x")
  case True
  have "of_int \<lfloor>x + 1 / 2\<rfloor> \<le> x + 1 / 2" "x + 1 / 2 < of_int \<lfloor>x + 1 / 2\<rfloor> + 1"
    by linarith+
  moreover have "c_round x = \<lfloor>x + 1 / 2\<rfloor>" using True by (simp add: c_round_def)
  ultimately show ?thesis by linarith
next
  case False
  have "x - 1 / 2 \<le> of_int \<lceil>x - 1 / 2\<rceil>" "of_int \<lceil>x - 1 / 2\<rceil> < x - 1 / 2 + 1"
    by linarith+
  moreover have "c_round x = \<lceil>x - 1 / 2\<rceil>" using False by (simp add: c_round_def)
  ultimately show ?thesis by linarith
qed

lemma c_round_tie_even:
  assumes "x = of_int k + 1 / 2"
  shows "2 * c_round (x / 2) = (if even k then k else k + 1)"
proof (cases "even k")
  case True
  then obtain j where k: "k = 2 * j" by (auto elim: evenE)
  have x2: "x / 2 = of_int j + 1 / 4" using assms k by simp
  have "c_round (x / 2) = j"
    unfolding c_round_def x2 by (auto simp: floor_eq_iff ceiling_eq_iff)
  then show ?thesis using True k by simp
next
  case False
  then obtain j where k: "k = 2 * j + 1" by (auto elim: oddE)
  have x2: "x / 2 = of_int j + 3 / 4" using assms k by simp
  have "c_round (x / 2) = j + 1"
    unfolding c_round_def x2 by (auto simp: floor_eq_iff ceiling_eq_iff)
  then show ?thesis using False k by simp
qed

lemma tie_cases:
  fixes x :: rat
  assumes "\<bar>x - of_int r\<bar> = 1 / 2"
  shows "\<exists>k. x = of_int k + 1 / 2"
proof (cases "of_int r \<le> x")
  case True
  then have "x = of_int r + 1 / 2" using assms by simp
  then show ?thesis by blast
next
  case False
  then have "x = of_int (r - 1) + 1 / 2" using assms by simp
  then show ?thesis by blast
qed

lemma py_round_nearest_half_even:
  assumes "py_round (Fin x) = Inr n"
  shows "nearest_half_even x n"
proof (cases "\<bar>x - of_int (c_round x)\<bar> = 1 / 2")
  case True
  then obtain k where k: "x = of_int k + 1 / 2" using tie_cases by blast
  have n: "n = (if even k then k else k + 1)"
    using assms True c_round_tie_even[OF k] by (simp add: Let_def)
  show ?thesis
    unfolding nearest_half_even_def using k n by (auto simp: abs_le_iff)
next
  case False
  then have n: "n = c_round x" using assms by (simp add: Let_def)
  have "\<bar>of_int n - x\<bar> \<le> 1 / 2" using c_round_close[of x] n by simp
  moreover have "\<bar>of_int n - x\<bar> \<noteq> 1 / 2" using False n by (simp add: abs_minus_commute)
  ultimately show ?thesis by (simp add: nearest_half_even_def)
qed

lemma py_round_finite: "is_finite d \<Longrightarrow> \<exists>n. py_round d = Inr n"
  by (cases d) (simp_all add: Let_def)

lemma round_half_even_close: "\<bar>of_int (round_half_even s) - s\<bar> \<le> 1 / 2"
proof -
  have "of_int \<lfloor>s\<rfloor> \<le> s" "s < of_int \<lfloor>s\<rfloor> + 1" by linarith+
  moreover have "round_half_even s = \<lfloor>s\<rfloor> \<and> s - of_int \<lfloor>s\<rfloor> \<le> 1 / 2
      \<or> round_half_even s = \<lfloor>s\<rfloor> + 1 \<and> 1 / 2 \<le> s - of_int \<lfloor>s\<rfloor>"
    unfolding round_half_even_def Let_def by auto
  ultimately show ?thesis by (elim disjE conjE) (simp only:, linarith)+
qed

subsection \<open>Converting an integer\<close>

lemma pow2_less_cancel: "pow2 a < pow2 b \<Longrightarrow> a < b"
  using pow2_mono[of b a] by (cases "a < b") auto

lemma pow2_52: "pow2 52 = 4503599627370496" by (simp add: pow2_def)
lemma pow2_53: "pow2 53 = 9007199254740992" by (simp add: pow2_def)

lemma int_abs_bound:
  fixes r :: int and b :: int
  assumes "\<bar>of_int r :: rat\<bar> < of_int b + 1 / 2"
  shows "\<bar>r\<bar> \<le> b"
proof -
  have "(of_int \<bar>r\<bar> :: rat) < of_int (b + 1)" using assms by simp
  then have "\<bar>r\<bar> < b + 1" by (simp only: of_int_less_iff)
  then show ?thesis by simp
qed

lemma fl_of_int_finite:
  fixes n :: int
  assumes n0: "n \<noteq> 0" and nb: "\<bar>n\<bar> < 2 ^ 1024 - 2 ^ 970"
  shows "\<exists>y. fl (of_int n) = Fin y"
proof -
  define x :: rat where "x = of_int n"
  define a where "a = \<bar>x\<bar>"
  define e where "e = flog2 a"
  have a1: "1 \<le> a" using n0 by (simp add: a_def x_def flip: of_int_abs)
  have "(of_int \<bar>n\<bar> :: rat) < of_int (2 ^ 1024 - 2 ^ 970)" using nb by (simp only: of_int_less_iff)
  then have ab: "a < pow2 1024 - pow2 970" by (simp add: a_def x_def pow2_def)
  have apos: "0 < a" using a1 by simp
  have eb: "pow2 e \<le> a" "a < pow2 (e + 1)" using flog2_bounds[OF apos] by (simp_all add: e_def)
  have "pow2 0 < pow2 (e + 1)" using a1 eb(2) by (simp add: pow2_def)
  then have e0: "0 \<le> e" using pow2_less_cancel[of 0 "e + 1"] by simp
  have "pow2 e < pow2 1024" using pow2_pos[of 970] eb(1) ab by simp
  then have e1: "e \<le> 1023" using pow2_less_cancel[of e 1024] by simp
  define u where "u = e - 52"
  have u: "ulp_exp x = u" using e0 by (simp add: ulp_exp_def u_def e_def a_def)
  define s where "s = x / pow2 u"
  define r where "r = round_half_even s"
  have upos: "0 < pow2 u" by (rule pow2_pos)
  have sabs: "\<bar>s\<bar> = a / pow2 u" using upos by (simp add: s_def a_def)
  have "e = 52 + u" "e + 1 = 53 + u" by (simp_all add: u_def)
  then have pe: "pow2 e = pow2 52 * pow2 u" "pow2 (e + 1) = pow2 53 * pow2 u"
    by (simp_all only: pow2_add)
  have s_lo: "pow2 52 \<le> \<bar>s\<bar>" using eb(1) upos by (simp add: sabs pe pos_le_divide_eq)
  have s_hi: "\<bar>s\<bar> < pow2 53" using eb(2) upos by (simp add: sabs pe pos_divide_less_eq)
  have close: "\<bar>of_int r - s\<bar> \<le> 1 / 2" unfolding r_def by (rule round_half_even_close)
  have rtd: "round_to_double x = of_int r * pow2 u"
    using apos by (auto simp: round_to_double_def u r_def s_def a_def)
  have r_ne: "r \<noteq> 0"
  proof
    assume "r = 0"
    then have "\<bar>s\<bar> \<le> 1 / 2" using close by simp
    then show False using s_lo by (simp add: pow2_52)
  qed
  have y_ne: "of_int r * pow2 u \<noteq> 0" using r_ne upos by simp
  have y_lt: "\<bar>of_int r * pow2 u\<bar> < pow2 1024"
  proof (cases "e \<le> 1022")
    case True
    have "\<bar>of_int r :: rat\<bar> < of_int 9007199254740992 + 1 / 2" using close s_hi unfolding pow2_53 of_int_numeral by linarith
    then have "\<bar>r\<bar> \<le> 9007199254740992" by (rule int_abs_bound)
    then have "(of_int \<bar>r\<bar> :: rat) \<le> of_int 9007199254740992" by (simp only: of_int_le_iff)
    then have "\<bar>of_int r :: rat\<bar> \<le> pow2 53" by (simp add: pow2_53)
    then have "\<bar>of_int r * pow2 u\<bar> \<le> pow2 53 * pow2 u"
      using upos by (simp add: abs_mult)
    also have "\<dots> = pow2 (e + 1)" by (simp add: pe)
    also have "\<dots> \<le> pow2 1023" using True by (intro pow2_mono) simp
    also have "\<dots> < pow2 1024" by (simp add: pow2_def)
    finally show ?thesis .
  next
    case False
    then have e: "e = 1023" using e1 by simp
    then have u971: "u = 971" by (simp add: u_def)
    have "pow2 1024 - pow2 970 = (pow2 53 - 1 / 2) * pow2 971"
      by (simp add: pow2_def)
    then have "\<bar>s\<bar> < pow2 53 - 1 / 2" using ab upos by (simp add: sabs u971 pos_divide_less_eq)
    then have "\<bar>of_int r :: rat\<bar> < 9007199254740992"
      using close unfolding pow2_53 by linarith
    then have "(of_int \<bar>r\<bar> :: rat) < of_int 9007199254740992" by simp
    then have "\<bar>r\<bar> < 9007199254740992" by (simp only: of_int_less_iff)
    then have "\<bar>r\<bar> \<le> 9007199254740991" by simp
    then have "(of_int \<bar>r\<bar> :: rat) \<le> of_int 9007199254740991" by (simp only: of_int_le_iff)
    then have "\<bar>of_int r :: rat\<bar> \<le> 9007199254740991" by simp
    then have "\<bar>of_int r * pow2 u\<bar> \<le> 9007199254740991 * pow2 u"
      using upos by (simp add: abs_mult)
    also have "\<dots> < pow2 1024" by (simp add: u971 pow2_def)
    finally show ?thesis .
  qed
  have "pow2 1024 = 2 ^ 1024" by (simp add: pow2_def)
  then have "\<not> 2 ^ 1024 \<le> \<bar>round_to_double x\<bar>" using y_lt rtd by (simp del: power_numeral)
  then have "fl x = Fin (of_int r * pow2 u)"
    unfolding fl_def Let_def using y_ne rtd by (simp del: power_numeral)
  then show ?thesis by (auto simp: x_def)
qed

lemma float_of_int_ok:
  assumes "\<bar>n\<bar> < 2 ^ 1024 - 2 ^ 970"
  shows "\<exists>y. float_of_int n = Inr (Fin y)"
proof (cases "n = 0")
  case True
  then show ?thesis by (simp add: float_of_int_def)
next
  case False
  from fl_of_int_finite[OF False assms] obtain y where "fl (of_int n) = Fin y" by blast
  then show ?thesis using False by (simp add: float_of_int_def)
qed

subsection \<open>Lower case and case-insensitive equality\<close>

lemma of_char_lower_char:
  "(of_char (lower_char c) :: nat) =
     (if 65 \<le> (of_char c :: nat) \<and> (of_char c :: nat) \<le> 90 then of_char c + 32 else of_char c)"
proof -
  have b: "(of_char c :: nat) < 256" by simp
  have A: "(of_char CHR ''A'' :: nat) = 65" by simp
  have Z: "(of_char CHR ''Z'' :: nat) = 90" by simp
  have le: "CHR ''A'' \<le> c \<and> c \<le> CHR ''Z'' \<longleftrightarrow> 65 \<le> (of_char c :: nat) \<and> (of_char c :: nat) \<le> 90"
    unfolding less_eq_char_def A Z ..
  have lc: "lower_char c =
      (if 65 \<le> (of_char c :: nat) \<and> (of_char c :: nat) \<le> 90 then char_of (of_char c + (32 :: nat)) else c)"
    unfolding lower_char_def le by (rule refl)
  show ?thesis
  proof (cases "65 \<le> (of_char c :: nat) \<and> (of_char c :: nat) \<le> 90")
    case True
    then have "(of_char c + 32 :: nat) < 256" by simp
    then have "(of_char (char_of (of_char c + 32 :: nat)) :: nat) = of_char c + 32"
      by (simp add: of_char_of)
    then show ?thesis using True by (simp only: lc simp_thms if_True)
  next
    case False
    then show ?thesis by (simp only: lc simp_thms if_False)
  qed
qed

lemma lower_char_eq_iff:
  assumes "97 \<le> (of_char t :: nat)" "(of_char t :: nat) \<le> 122"
  shows "lower_char c = t \<longleftrightarrow> equal_ignoring_case c t"
proof -
  define n where "n = (of_char c :: nat)"
  define m where "m = (of_char t :: nat)"
  have ct: "c = t \<longleftrightarrow> n = m" unfolding n_def m_def by (rule of_char_eq_iff[symmetric])
  have "lower_char c = t \<longleftrightarrow> (of_char (lower_char c) :: nat) = of_char t"
    by (rule of_char_eq_iff[symmetric])
  also have "\<dots> \<longleftrightarrow> (if 65 \<le> n \<and> n \<le> 90 then n + 32 else n) = m"
    unfolding of_char_lower_char n_def m_def ..
  also have "\<dots> \<longleftrightarrow> (n = m \<or> (65 \<le> n \<and> n \<le> 90 \<and> n + 32 = m))"
    using assms unfolding m_def[symmetric] by auto
  also have "\<dots> \<longleftrightarrow> equal_ignoring_case c t"
    unfolding equal_ignoring_case_def letter_index_def Let_def ct n_def[symmetric] m_def[symmetric]
    using assms unfolding m_def[symmetric] by (auto split: option.splits if_splits)
  finally show ?thesis .
qed

lemma male_letters:
  "lower_char c = CHR ''m'' \<longleftrightarrow> equal_ignoring_case c CHR ''m''"
  "lower_char c = CHR ''a'' \<longleftrightarrow> equal_ignoring_case c CHR ''a''"
  "lower_char c = CHR ''l'' \<longleftrightarrow> equal_ignoring_case c CHR ''l''"
  "lower_char c = CHR ''e'' \<longleftrightarrow> equal_ignoring_case c CHR ''e''"
  by (rule lower_char_eq_iff; simp)+

lemma lower_male_iff: "lower g = ''male'' \<longleftrightarrow> case_insensitive_equal g ''male''"
proof -
  have "lower g = ''male'' \<longleftrightarrow>
      (\<exists>c1 c2 c3 c4. g = [c1, c2, c3, c4] \<and> lower_char c1 = CHR ''m'' \<and> lower_char c2 = CHR ''a''
          \<and> lower_char c3 = CHR ''l'' \<and> lower_char c4 = CHR ''e'')"
    unfolding lower_def by (auto simp add: map_eq_Cons_conv)
  also have "\<dots> \<longleftrightarrow> (\<exists>c1 c2 c3 c4. g = [c1, c2, c3, c4] \<and> equal_ignoring_case c1 CHR ''m''
        \<and> equal_ignoring_case c2 CHR ''a'' \<and> equal_ignoring_case c3 CHR ''l''
        \<and> equal_ignoring_case c4 CHR ''e'')"
    unfolding male_letters ..
  also have "\<dots> \<longleftrightarrow> case_insensitive_equal g ''male''"
    unfolding case_insensitive_equal_def by (auto simp add: list_all2_Cons2)
  finally show ?thesis .
qed

subsection \<open>Results are binary64 values\<close>

lemma pow2_split: "pow2 a = pow2 (a - b) * pow2 b"
  by (simp flip: pow2_add)

lemma pow2_Suc: "pow2 (a + 1) = 2 * pow2 a"
proof -
  have "pow2 (a + 1) = pow2 a * pow2 1" by (rule pow2_add)
  moreover have "pow2 1 = 2" by (simp add: pow2_def)
  ultimately show ?thesis by simp
qed

lemma pow2_less_Suc: "pow2 a < pow2 (a + 1)"
  using pow2_pos[of a] by (simp add: pow2_Suc)

lemma round_to_double_is_double:
  assumes "\<bar>round_to_double x\<bar> < 2 ^ 1024"
  shows "is_double (round_to_double x)"
proof (cases "round_to_double x = 0")
  case True
  then show ?thesis by (simp add: is_double_def)
next
  case False
  then have x0: "x \<noteq> 0" by (auto simp: round_to_double_def)
  define a where "a = \<bar>x\<bar>"
  define e where "e = flog2 a"
  define u where "u = ulp_exp x"
  define s where "s = x / pow2 u"
  define r where "r = round_half_even s"
  define y where "y = round_to_double x"
  have y: "y = of_int r * pow2 u"
    using x0 by (simp add: y_def round_to_double_def r_def s_def u_def)
  have apos: "0 < a" using x0 by (simp add: a_def)
  have eb: "pow2 e \<le> a" "a < pow2 (e + 1)" using flog2_bounds[OF apos] by (simp_all add: e_def)
  have u_ge: "e - 52 \<le> u" "- 1074 \<le> u" by (simp_all add: u_def ulp_exp_def e_def a_def)
  have upos: "0 < pow2 u" by (rule pow2_pos)
  have sabs: "\<bar>s\<bar> = a / pow2 u" using upos by (simp add: s_def a_def)
  have "pow2 (e + 1) = pow2 (e + 1 - u) * pow2 u" by (rule pow2_split)
  then have "\<bar>s\<bar> < pow2 (e + 1 - u)" using eb(2) upos by (simp add: sabs pos_divide_less_eq)
  also have "\<dots> \<le> pow2 53" using u_ge(1) by (intro pow2_mono) simp
  finally have s_hi: "\<bar>s\<bar> < pow2 53" .
  have close: "\<bar>of_int r - s\<bar> \<le> 1 / 2" unfolding r_def by (rule round_half_even_close)
  have "\<bar>of_int r :: rat\<bar> < of_int 9007199254740992 + 1 / 2"
    using close s_hi unfolding pow2_53 of_int_numeral by linarith
  then have r_le: "\<bar>r\<bar> \<le> 9007199254740992" by (rule int_abs_bound)
  have r0: "r \<noteq> 0" using False y by (auto simp: y_def)
  have yabs: "\<bar>y\<bar> = of_int \<bar>r\<bar> * pow2 u" using upos by (simp add: y abs_mult)
  have ypos: "0 < \<bar>y\<bar>" using False by (simp add: y_def)
  define u' where "u' = ulp_exp y"
  have int: "of_int \<lfloor>y / pow2 u'\<rfloor> = y / pow2 u'"
  proof (cases "\<bar>r\<bar> = 9007199254740992")
    case True
    then have "\<bar>y\<bar> = pow2 53 * pow2 u" by (simp add: yabs pow2_53)
    then have ya: "\<bar>y\<bar> = pow2 (u + 53)" by (simp add: pow2_add mult.commute)
    have "pow2 (u + 53) < pow2 (u + 53 + 1)" by (rule pow2_less_Suc)
    then have "flog2 \<bar>y\<bar> = u + 53" using ya by (intro flog2_unique) simp_all
    then have u': "u' = u + 1" using u_ge(2) by (simp add: u'_def ulp_exp_def)
    have "pow2 (u + 1) = 2 * pow2 u" by (rule pow2_Suc)
    then have "y / pow2 u' = of_int r / 2" using upos by (simp add: u' y)
    moreover have "even r" using True by presburger
    then obtain q where "r = 2 * q" by (auto elim: evenE)
    ultimately have "y / pow2 u' = of_int q" by simp
    then show ?thesis by simp
  next
    case False
    then have "\<bar>r\<bar> < 9007199254740992" using r_le by simp
    then have "(of_int \<bar>r\<bar> :: rat) < of_int 9007199254740992" by (simp only: of_int_less_iff)
    then have "(of_int \<bar>r\<bar> :: rat) < pow2 53" by (simp add: pow2_53)
    then have "\<bar>y\<bar> < pow2 53 * pow2 u" using upos by (simp add: yabs)
    then have "\<bar>y\<bar> < pow2 (u + 53)" by (simp add: pow2_add mult.commute)
    moreover have "pow2 (flog2 \<bar>y\<bar>) \<le> \<bar>y\<bar>" using flog2_bounds[OF ypos] by simp
    ultimately have "pow2 (flog2 \<bar>y\<bar>) < pow2 (u + 53)" by simp
    then have "flog2 \<bar>y\<bar> < u + 53" by (rule pow2_less_cancel)
    then have le: "u' \<le> u" using u_ge(2) by (simp add: u'_def ulp_exp_def)
    have "pow2 u = pow2 (u - u') * pow2 u'" by (rule pow2_split)
    then have "y / pow2 u' = of_int r * pow2 (u - u')"
      using pow2_pos[of u'] by (simp add: y)
    also have "\<dots> = of_int (r * 2 ^ nat (u - u'))" using le by (simp add: pow2_nat)
    finally show ?thesis by (simp only: floor_of_int)
  qed
  have "is_double y"
    unfolding is_double_def using int assms by (simp add: u'_def y_def del: power_numeral)
  then show ?thesis by (simp add: y_def)
qed

text \<open>Every rounded result is a binary64 value.\<close>

lemma fl_is_double: "fl x = Fin y \<Longrightarrow> is_double y"
proof -
  assume a: "fl x = Fin y"
  show ?thesis
  proof (cases "2 ^ 1024 \<le> \<bar>round_to_double x\<bar>")
    case True
    then show ?thesis using a by (simp add: fl_def Let_def del: power_numeral split: if_splits)
  next
    case False
    then have "is_double (round_to_double x)" by (intro round_to_double_is_double) simp
    then show ?thesis
      using a False by (auto simp: fl_def Let_def is_double_def simp del: power_numeral split: if_splits)
  qed
qed

lemma is_binary64_fl: "is_binary64 (fl x)"
  by (cases "fl x") (simp_all add: fl_is_double)

lemma is_binary64_zero: "is_binary64 (signed_zero b)"
  by (simp add: signed_zero_def is_double_def)

lemma is_binary64_fadd: "is_binary64 (fadd a b)"
  by (cases a; cases b) (simp_all add: fadd_def is_binary64_fl is_binary64_zero)

lemma is_binary64_fsub: "is_binary64 (fsub a b)"
  by (simp add: fsub_def is_binary64_fadd)

lemma is_binary64_fmul: "is_binary64 (fmul a b)"
  by (cases a; cases b) (simp_all add: fmul_def is_binary64_fl is_binary64_zero signed_inf_def)

lemma is_binary64_truediv: "py_truediv a b = Inr c \<Longrightarrow> is_binary64 c"
  by (cases a; cases b)
    (auto simp: py_truediv_def is_binary64_fl is_binary64_zero signed_inf_def split: if_splits)

lemma is_binary64_float_of_int: "float_of_int n = Inr d \<Longrightarrow> is_binary64 d"
proof (cases "n = 0")
  case True
  assume "float_of_int n = Inr d"
  then show ?thesis using True by (auto simp: float_of_int_def is_double_def)
next
  case False
  assume "float_of_int n = Inr d"
  then have "d = fl (of_int n)"
    using False by (auto simp: float_of_int_def split: double.splits)
  then show ?thesis by (simp only: is_binary64_fl)
qed

lemma is_binary64_float_lit: "is_binary64 (float_lit x)"
  by (simp add: float_lit_def is_binary64_fl)

subsection \<open>Signs of rounded values\<close>

lemma round_to_double_nonneg: "0 \<le> x \<Longrightarrow> 0 \<le> round_to_double x"
  using pow2_pos[of "ulp_exp x"] round_half_even_nonneg[of "x / pow2 (ulp_exp x)"]
  by (simp add: round_to_double_def)

lemma fl_pos_not_negative: "0 < x \<Longrightarrow> \<not> flt (fl x) (Fin 0)"
  using round_to_double_nonneg[of x] by (auto simp: fl_def Let_def simp del: power_numeral)

lemma py_max_zero_not_negative: "\<not> flt (py_max d (Fin 0)) (Fin 0)"
  by (simp add: py_max_def)

lemma truediv_4:
  "\<exists>c. py_truediv m (Fin 4) = Inr c \<and> (\<not> flt m (Fin 0) \<longrightarrow> \<not> flt c (Fin 0))"
proof (cases m)
  case (Fin x)
  show ?thesis
  proof (cases "x = 0")
    case True
    then show ?thesis using Fin by (simp add: py_truediv_def signed_zero_def)
  next
    case False
    have "\<not> flt (fl (x / 4)) (Fin 0)" if "\<not> x < 0"
      using that False fl_pos_not_negative[of "x / 4"] by simp
    then show ?thesis using Fin False by (simp add: py_truediv_def)
  qed
qed (simp_all add: py_truediv_def signed_zero_def signed_inf_def)

subsection \<open>Concrete roundings and runs\<close>

lemma fl_30: "fl 30 = Fin 30"
  by (rule fl_eval[where e="4" and u="-48"]) (simp_all add: rhe_eval)

lemma fl_800: "fl 800 = Fin 800"
  by (rule fl_eval[where e="9" and u="-43"]) (simp_all add: rhe_eval)

lemma fl_1125: "fl 1125 = Fin 1125"
  by (rule fl_eval[where e="10" and u="-42"]) (simp_all add: rhe_eval)

lemma fl_1925: "fl 1925 = Fin 1925"
  by (rule fl_eval[where e="10" and u="-42"]) (simp_all add: rhe_eval)

lemma fl_150: "fl 150 = Fin 150"
  by (rule fl_eval[where e="7" and u="-45"]) (simp_all add: rhe_eval)

lemma fl_1775: "fl 1775 = Fin 1775"
  by (rule fl_eval[where e="10" and u="-42"]) (simp_all add: rhe_eval)

lemma fl_1780: "fl 1780 = Fin 1780"
  by (rule fl_eval[where e="10" and u="-42"]) (simp_all add: rhe_eval)

lemma fl_tdee_ex: "fl (3106357842978799705 / 1125899906842624) = Fin 2759"
  by (rule fl_eval[where e="11" and u="-41"]) (simp_all add: rhe_eval)

lemma fl_protein_ex: "fl (40532396646334465 / 281474976710656) = Fin 144"
  by (rule fl_eval[where e="7" and u="-45"]) (simp_all add: rhe_eval)

lemma fl_fat_ex: "fl (18014398509481985 / 281474976710656) = Fin 64"
  by (rule fl_eval[where e="6" and u="-46"]) (simp_all add: rhe_eval)

lemma fl_576: "fl 576 = Fin 576"
  by (rule fl_eval[where e="9" and u="-43"]) (simp_all add: rhe_eval)

lemma fl_1152: "fl 1152 = Fin 1152"
  by (rule fl_eval[where e="10" and u="-42"]) (simp_all add: rhe_eval)

lemma fl_1607: "fl 1607 = Fin 1607"
  by (rule fl_eval[where e="10" and u="-42"]) (simp_all add: rhe_eval)

lemma fl_carb_ex: "fl (1607 / 4) = Fin (1607 / 4)"
  by (rule fl_eval[where e="8" and u="-44"]) (simp_all add: rhe_eval)

lemma fl_protein_70: "fl (283726776524341255 / 2251799813685248) = Fin 126"
  by (rule fl_eval[where e="6" and u="-46"]) (simp_all add: rhe_eval)

lemma fl_fat_70: "fl (126100789566373895 / 2251799813685248) = Fin 56"
  by (rule fl_eval[where e="5" and u="-47"]) (simp_all add: rhe_eval)

lemma fl_504: "fl 504 = Fin 504"
  by (rule fl_eval[where e="8" and u="-44"]) (simp_all add: rhe_eval)

lemma fl_1008: "fl 1008 = Fin 1008"
  by (rule fl_eval[where e="9" and u="-43"]) (simp_all add: rhe_eval)

lemma fl_m1008: "fl (- 1008) = Fin (- 1008)"
  by (rule fl_eval[where e="9" and u="-43"]) (simp_all add: rhe_eval)

lemma fl_overflow_eval:
  assumes "pow2 e \<le> x" "x < pow2 (e + 1)"
    and "u = max (e - 52) (- 1074)"
    and "y = of_int (round_half_even (x / pow2 u)) * pow2 u"
    and "2 ^ 1024 \<le> y"
  shows "fl x = PInf"
proof -
  have x: "0 < x" using assms(1) pow2_pos[of e] by simp
  then have "\<bar>x\<bar> = x" by simp
  then have "ulp_exp x = u" using ulp_exp_eval[of e x] assms(1-3) by simp
  moreover have "2 ^ 1024 \<le> \<bar>y\<bar>" using assms(5) by linarith
  ultimately show ?thesis
    using x assms(4) by (simp add: fl_def round_to_double_def Let_def del: power_numeral)
qed

lemma float_of_int_overflow: "float_of_int (2 ^ 1024) = Inl OverflowError"
proof -
  have "fl (2 ^ 1024) = PInf"
    by (rule fl_overflow_eval[where e=1024 and u=972 and y="2 ^ 1024"]) (simp_all add: rhe_eval)
  then show ?thesis by (simp add: float_of_int_def)
qed

lemma float_of_int_30: "float_of_int 30 = Inr (Fin 30)"
  by (simp add: float_of_int_def fl_30)

lemma lower_male: "lower ''male'' = ''male''" "lower ''Male'' = ''male''" "lower ''female'' \<noteq> ''male''"
  unfolding lower_male_iff
  by (simp_all add: case_insensitive_equal_def equal_ignoring_case_def letter_index_def)

lemma bmr_ex: "calculate_bmr_mifflin_st_jeor (Fin 80) (Fin 180) 30 ''male'' = Inr (Fin 1780)"
  by (simp add: calculate_bmr_mifflin_st_jeor_def float_of_int_30 lower_male float_lits
      fmul_def fadd_def fsub_def fl_800 fl_1125 fl_1925 fl_150 fl_1775 fl_1780)

lemma macros_ex:
  "compute_macros (Fin 2759) (Fin 80) =
     Inr \<lparr>protein_g = Fin 144, fat_g = Fin 64, carb_g = Fin (1607 / 4)\<rparr>"
  by (simp add: compute_macros_def float_lits fmul_def fadd_def fsub_def py_max_def py_truediv_def
     fl_protein_ex fl_fat_ex fl_576 fl_1152 fl_1607 fl_carb_ex)

lemma macros_0_70:
  "compute_macros (Fin 0) (Fin 70) = Inr \<lparr>protein_g = Fin 126, fat_g = Fin 56, carb_g = Fin 0\<rparr>"
  by (simp add: compute_macros_def float_lits fmul_def fadd_def fsub_def py_max_def py_truediv_def
     signed_zero_def fl_protein_70 fl_fat_70 fl_504 fl_1008 fl_m1008)

lemma round_ex:
  "py_round (Fin 2759) = Inr 2759" "py_round (Fin 144) = Inr 144" "py_round (Fin 64) = Inr 64"
  "py_round (Fin (1607 / 4)) = Inr 402" "py_round (Fin 1780) = Inr 1780"
  by (simp_all add: c_round_def floor_rat_div_numeral)

lemma tdee_ex: "fmul (Fin 1780) (activity_multiplier ''moderate'') = Fin 2759"
  by (simp add: activity_multiplier_def mapping_def float_lit_1_55 fmul_def fl_tdee_ex)

lemma result_ex:
  "calculate_result (Fin 180) (Fin 80) 30 ''male'' ''moderate'' =
     Inr \<lparr>res_calories = 2759, res_protein_g = 144, res_fat_g = 64, res_carb_g = 402,
          res_bmr = 1780, res_activity_multiplier = float_lit (155 / 100)\<rparr>"
  using tdee_ex
  by (simp add: calculate_result_def bmr_ex activity_multiplier_def mapping_def
      macros_ex round_ex del: py_round.simps)

lemma fl_166: "fl 166 = Fin 166"
  by (rule fl_eval[where e="7" and u="-45"]) (simp_all add: rhe_eval)

lemma fl_1614: "fl 1614 = Fin 1614"
  by (rule fl_eval[where e="10" and u="-42"]) (simp_all add: rhe_eval)

lemma float_lit_0_01: "float_lit (1 / 100) = Fin (5764607523034235 / 576460752303423488)"
  unfolding float_lit_def by (rule fl_eval[where e="-7" and u="-59"]) (simp_all add: rhe_eval)

lemma fl_tie_1: "fl 30 = Fin 30"
  by (rule fl_eval[where e="4" and u="-48"]) (simp_all add: rhe_eval)

lemma fl_tie_2: "fl 800 = Fin 800"
  by (rule fl_eval[where e="9" and u="-43"]) (simp_all add: rhe_eval)

lemma fl_tie_3: "fl (2075 / 2) = Fin (2075 / 2)"
  by (rule fl_eval[where e="10" and u="-42"]) (simp_all add: rhe_eval)

lemma fl_tie_4: "fl (3675 / 2) = Fin (3675 / 2)"
  by (rule fl_eval[where e="10" and u="-42"]) (simp_all add: rhe_eval)

lemma fl_tie_5: "fl 150 = Fin 150"
  by (rule fl_eval[where e="7" and u="-45"]) (simp_all add: rhe_eval)

lemma fl_tie_6: "fl (3375 / 2) = Fin (3375 / 2)"
  by (rule fl_eval[where e="10" and u="-42"]) (simp_all add: rhe_eval)

lemma fl_tie_7: "fl (3385 / 2) = Fin (3385 / 2)"
  by (rule fl_eval[where e="10" and u="-42"]) (simp_all add: rhe_eval)

lemma fl_tie_8: "fl (23629261344906150565 / 9007199254740992) = Fin (20987 / 8)"
  by (rule fl_eval[where e="11" and u="-41"]) (simp_all add: rhe_eval)

lemma fl_tie_9: "fl (40532396646334465 / 281474976710656) = Fin 144"
  by (rule fl_eval[where e="7" and u="-45"]) (simp_all add: rhe_eval)

lemma fl_tie_10: "fl (18014398509481985 / 281474976710656) = Fin 64"
  by (rule fl_eval[where e="6" and u="-46"]) (simp_all add: rhe_eval)

lemma fl_tie_11: "fl 576 = Fin 576"
  by (rule fl_eval[where e="9" and u="-43"]) (simp_all add: rhe_eval)

lemma fl_tie_12: "fl 1152 = Fin 1152"
  by (rule fl_eval[where e="10" and u="-42"]) (simp_all add: rhe_eval)

lemma fl_tie_13: "fl (11771 / 8) = Fin (11771 / 8)"
  by (rule fl_eval[where e="10" and u="-42"]) (simp_all add: rhe_eval)

lemma fl_tie_14: "fl (11771 / 32) = Fin (11771 / 32)"
  by (rule fl_eval[where e="8" and u="-44"]) (simp_all add: rhe_eval)

lemmas fl_tie = fl_tie_1 fl_tie_2 fl_tie_3 fl_tie_4 fl_tie_5 fl_tie_6 fl_tie_7 fl_tie_8 fl_tie_9 fl_tie_10 fl_tie_11 fl_tie_12 fl_tie_13 fl_tie_14

lemma fl_diff_1: "fl 30 = Fin 30"
  by (rule fl_eval[where e="4" and u="-48"]) (simp_all add: rhe_eval)

lemma fl_diff_2: "fl (28823037615171175 / 288230376151711744) = Fin (3602879701896397 / 36028797018963968)"
  by (rule fl_eval[where e="-4" and u="-56"]) (simp_all add: rhe_eval)

lemma fl_diff_3: "fl (25 / 4) = Fin (25 / 4)"
  by (rule fl_eval[where e="2" and u="-50"]) (simp_all add: rhe_eval)

lemma fl_diff_4: "fl (228782861070421197 / 36028797018963968) = Fin (3574732204225331 / 562949953421312)"
  by (rule fl_eval[where e="2" and u="-50"]) (simp_all add: rhe_eval)

lemma fl_diff_5: "fl 150 = Fin 150"
  by (rule fl_eval[where e="7" and u="-45"]) (simp_all add: rhe_eval)

lemma fl_diff_6: "fl (- (80867760808971469 / 562949953421312)) = Fin (- (5054235050560717 / 35184372088832))"
  by (rule fl_eval[where e="7" and u="-45"]) (simp_all add: rhe_eval)

lemma fl_diff_7: "fl (- (4878313190116557 / 35184372088832)) = Fin (- (4878313190116557 / 35184372088832))"
  by (rule fl_eval[where e="7" and u="-45"]) (simp_all add: rhe_eval)

lemma fl_diff_8: "fl (- (10718918956862669 / 35184372088832)) = Fin (- (2679729739215667 / 8796093022208))"
  by (rule fl_eval[where e="8" and u="-44"]) (simp_all add: rhe_eval)

lemma fl_diff_9: "fl (5840605766746111 / 35184372088832) = Fin (5840605766746111 / 35184372088832)"
  by (rule fl_eval[where e="7" and u="-45"]) (simp_all add: rhe_eval)

lemmas fl_diff = fl_diff_1 fl_diff_2 fl_diff_3 fl_diff_4 fl_diff_5 fl_diff_6 fl_diff_7 fl_diff_8 fl_diff_9

lemma fl_big_1: "fl 1 = Fin 1"
  by (rule fl_eval[where e="0" and u="-52"]) (simp_all add: rhe_eval)

lemma fl_big_2: "fl 11529215046068469760 = Fin 11529215046068469760"
  by (rule fl_eval[where e="63" and u="11"]) (simp_all add: rhe_eval)

lemma fl_big_3: "fl (25 / 4) = Fin (25 / 4)"
  by (rule fl_eval[where e="2" and u="-50"]) (simp_all add: rhe_eval)

lemma fl_big_4: "fl (46116860184273879065 / 4) = Fin 11529215046068469760"
  by (rule fl_eval[where e="63" and u="11"]) (simp_all add: rhe_eval)

lemma fl_big_5: "fl 5 = Fin 5"
  by (rule fl_eval[where e="2" and u="-50"]) (simp_all add: rhe_eval)

lemma fl_big_6: "fl 11529215046068469755 = Fin 11529215046068469760"
  by (rule fl_eval[where e="63" and u="11"]) (simp_all add: rhe_eval)

lemma fl_big_7: "fl 11529215046068469765 = Fin 11529215046068469760"
  by (rule fl_eval[where e="63" and u="11"]) (simp_all add: rhe_eval)

lemma fl_big_8: "fl 11529215046068469599 = Fin 11529215046068469760"
  by (rule fl_eval[where e="63" and u="11"]) (simp_all add: rhe_eval)

lemmas fl_big = fl_big_1 fl_big_2 fl_big_3 fl_big_4 fl_big_5 fl_big_6 fl_big_7 fl_big_8

lemma fadd_exact:
  assumes "is_finite a" "is_finite b" "is_double (val a + val b)"
    and "val a + val b = 0 \<longrightarrow> \<not> (sign_bit a \<and> sign_bit b)"
  shows "fadd a b = Fin (val a + val b)"
proof -
  have n: "a \<noteq> NaN" "b \<noteq> NaN" using assms(1,2) by auto
  show ?thesis
  proof (cases "val a + val b = 0")
    case True
    then show ?thesis using assms n by (simp add: fadd_def signed_zero_def)
  next
    case False
    then show ?thesis using assms(1,2) n fl_exact[OF assms(3) False] by (simp add: fadd_def)
  qed
qed

lemma finite_val_sign: "is_finite a \<Longrightarrow> val a = x \<Longrightarrow> 0 < x \<Longrightarrow> \<not> sign_bit a"
  by (cases a) auto

lemma is_double_1780: "is_double 1780"
  by (rule is_double_eval[where e=10 and u="-42"]) (simp_all add: rhe_eval)

lemma is_double_1614: "is_double 1614"
  by (rule is_double_eval[where e=10 and u="-42"]) (simp_all add: rhe_eval)

lemma base_ex:
  "fsub (fadd (fmul (float_lit 10) (Fin 80)) (fmul (float_lit (625 / 100)) (Fin 180)))
        (fmul (float_lit 5) (Fin 30)) = Fin 1775"
  by (simp add: float_lits fmul_def fadd_def fsub_def fl_800 fl_1125 fl_1925 fl_150 fl_1775)

lemma bmr_small_male:
  "calculate_bmr_mifflin_st_jeor (float_lit (1 / 100)) (Fin 1) 30 ''male''
     = Inr (Fin (- (4878313190116557 / 35184372088832)))"
  by (simp add: calculate_bmr_mifflin_st_jeor_def float_of_int_30 lower_male float_lits
      float_lit_0_01 fmul_def fadd_def fsub_def fl_diff)

lemma bmr_small_female:
  "calculate_bmr_mifflin_st_jeor (float_lit (1 / 100)) (Fin 1) 30 ''female''
     = Inr (Fin (- (2679729739215667 / 8796093022208)))"
  by (simp add: calculate_bmr_mifflin_st_jeor_def float_of_int_30 lower_male float_lits
      float_lit_0_01 fmul_def fadd_def fsub_def fl_diff)

lemma float_of_int_1: "float_of_int 1 = Inr (Fin 1)"
  by (simp add: float_of_int_def fl_big)

lemma bmr_big_male:
  "calculate_bmr_mifflin_st_jeor (Fin 1152921504606846976) (Fin 1) 1 ''male'' = Inr (Fin 11529215046068469760)"
  by (simp add: calculate_bmr_mifflin_st_jeor_def float_of_int_1 lower_male float_lits
      fmul_def fadd_def fsub_def fl_big)

lemma bmr_big_female:
  "calculate_bmr_mifflin_st_jeor (Fin 1152921504606846976) (Fin 1) 1 ''female'' = Inr (Fin 11529215046068469760)"
  by (simp add: calculate_bmr_mifflin_st_jeor_def float_of_int_1 lower_male float_lits
      fmul_def fadd_def fsub_def fl_big)

lemma py_round_finite_nearest:
  assumes "is_finite d"
  shows "\<exists>n. py_round d = Inr n \<and> nearest_half_even (val d) n"
proof (cases d)
  case (Fin x)
  obtain n where n: "py_round (Fin x) = Inr n" using py_round_finite[of "Fin x"] by auto
  then show ?thesis using Fin py_round_nearest_half_even[OF n] by simp
next
  case MZero
  then show ?thesis by (simp add: nearest_half_even_def)
qed (use assms in simp_all)

lemma bmr_tie: "calculate_bmr_mifflin_st_jeor (Fin 80) (Fin 166) 30 ''male'' = Inr (Fin (3385 / 2))"
  by (simp add: calculate_bmr_mifflin_st_jeor_def float_of_int_30 lower_male float_lits
      fmul_def fadd_def fsub_def fl_tie)

lemma tdee_tie: "fmul (Fin (3385 / 2)) (activity_multiplier ''moderate'') = Fin (20987 / 8)"
  by (simp add: activity_multiplier_def mapping_def float_lit_1_55 fmul_def fl_tie)

lemma macros_tie:
  "compute_macros (Fin (20987 / 8)) (Fin 80) =
     Inr \<lparr>protein_g = Fin 144, fat_g = Fin 64, carb_g = Fin (11771 / 32)\<rparr>"
  by (simp add: compute_macros_def float_lits fmul_def fadd_def fsub_def py_max_def py_truediv_def
      fl_tie)

lemma round_tie:
  "py_round (Fin (20987 / 8)) = Inr 2623" "py_round (Fin (11771 / 32)) = Inr 368"
  "py_round (Fin (3385 / 2)) = Inr 1692"
  by (simp_all add: c_round_def floor_rat_div_numeral)

lemma result_tie:
  "calculate_result (Fin 166) (Fin 80) 30 ''male'' ''moderate'' =
     Inr \<lparr>res_calories = 2623, res_protein_g = 144, res_fat_g = 64, res_carb_g = 368,
          res_bmr = 1692, res_activity_multiplier = float_lit (155 / 100)\<rparr>"
  using tdee_tie
  by (simp add: calculate_result_def bmr_tie activity_multiplier_def mapping_def
      macros_tie round_tie round_ex del: py_round.simps)

subsection \<open>The listing is a stable descending sort\<close>

lemma keyed_timestamps:
  assumes "\<forall>u\<in>set xs. has_string_timestamp u"
  shows "keyed timestamp_key xs = Inr (map (\<lambda>u. (JStr (timestamp_of u), u)) xs)"
  using assms
proof (induction xs)
  case Nil
  then show ?case by simp
next
  case (Cons x xs)
  from Cons.prems have "has_string_timestamp x" by simp
  then obtain t where t: "timestamp_key x = Inr (JStr t)"
    by (auto simp: has_string_timestamp_def split: sum.splits json.splits)
  then have "timestamp_of x = t" by (simp add: timestamp_of_def)
  with t Cons show ?case by simp
qed

lemma string_keyed_map:
  "string_keyed (map (\<lambda>u. (JStr (k u), u)) xs) = Some (map (\<lambda>u. (k u, u)) xs)"
  by (induction xs) simp_all

lemma py_sorted_reverse_timestamps:
  assumes "\<forall>u\<in>set xs. has_string_timestamp u"
  shows "py_sorted_reverse timestamp_key xs =
     Inr (if length xs < 2 then xs
          else map snd (rev (sort_key fst (rev (map (\<lambda>u. (timestamp_of u, u)) xs)))))"
  by (simp add: py_sorted_reverse_def keyed_timestamps[OF assms] string_keyed_map)

lemma mset_sorted_pairs:
  "mset (map snd (rev (sort_key fst (rev (map (\<lambda>u. (k u, u)) xs))))) = mset xs"
proof -
  define ps where "ps = map (\<lambda>u. (k u, u)) xs"
  have "mset (map snd (rev (sort_key fst (rev ps)))) = image_mset snd (mset (rev (sort_key fst (rev ps))))"
    by (simp only: mset_map)
  also have "\<dots> = image_mset snd (mset ps)" by simp
  also have "\<dots> = mset (map snd ps)" by (simp only: mset_map)
  also have "map snd ps = xs" unfolding ps_def by (induction xs) simp_all
  finally show ?thesis unfolding ps_def .
qed

lemma keys_sorted_pairs:
  "map k (map snd (rev (sort_key fst (rev (map (\<lambda>u. (k u, u)) xs)))))
     = rev (map fst (sort_key fst (rev (map (\<lambda>u. (k u, u)) xs))))"
proof -
  have "\<forall>p\<in>set (sort_key fst (rev (map (\<lambda>u. (k u, u)) xs))). k (snd p) = fst p"
    by auto
  then have "map (\<lambda>p. k (snd p)) (sort_key fst (rev (map (\<lambda>u. (k u, u)) xs)))
      = map fst (sort_key fst (rev (map (\<lambda>u. (k u, u)) xs)))"
    by (intro map_cong) auto
  then show ?thesis by (simp add: rev_map comp_def)
qed

lemma descending_sorted_pairs:
  "descending (map timestamp_of
      (map snd (rev (sort_key fst (rev (map (\<lambda>u. (timestamp_of u, u)) xs))))))"
  unfolding keys_sorted_pairs descending_def
  by (simp add: sorted_wrt_rev)

lemma descending_short: "length xs < 2 \<Longrightarrow> descending (map k xs)"
  by (cases xs; cases "tl xs") (auto simp: descending_def)

lemma stable_sorted_pairs:
  "filter (\<lambda>u. k u = t) (map snd (rev (sort_key fst (rev (map (\<lambda>u. (k u, u)) xs)))))
     = filter (\<lambda>u. k u = t) xs"
proof -
  define ps where "ps = map (\<lambda>u. (k u, u)) xs"
  have key: "\<forall>p\<in>set zs. k (snd p) = fst p" if "set zs \<subseteq> set ps" for zs
    using that unfolding ps_def by auto
  have fm: "filter (\<lambda>u. k u = t) (map snd zs) = map snd (filter (\<lambda>p. fst p = t) zs)"
    if "set zs \<subseteq> set ps" for zs
    using key[OF that] by (induction zs) auto
  have "filter (\<lambda>u. k u = t) (map snd (rev (sort_key fst (rev ps))))
      = map snd (filter (\<lambda>p. fst p = t) (rev (sort_key fst (rev ps))))"
    by (rule fm) simp
  also have "\<dots> = map snd (rev (filter (\<lambda>p. fst p = t) (sort_key fst (rev ps))))"
    by (simp only: rev_filter)
  also have "filter (\<lambda>p. fst p = t) (sort_key fst (rev ps)) = filter (\<lambda>p. fst p = t) (rev ps)"
    by (rule sort_key_stable)
  also have "map snd (rev (filter (\<lambda>p. fst p = t) (rev ps)))
      = map snd (filter (\<lambda>p. fst p = t) ps)"
    by (simp add: rev_filter)
  also have "\<dots> = filter (\<lambda>u. k u = t) (map snd ps)"
    by (rule fm[symmetric]) simp
  also have "map snd ps = xs" unfolding ps_def by (induction xs) simp_all
  finally show ?thesis unfolding ps_def .
qed

lemma listing_properties:
  assumes "\<forall>u\<in>set xs. has_string_timestamp u"
  shows "\<exists>ys. py_sorted_reverse timestamp_key xs = Inr ys \<and> mset ys = mset xs
      \<and> descending (map timestamp_of ys)
      \<and> (\<forall>t. filter (\<lambda>u. timestamp_of u = t) ys = filter (\<lambda>u. timestamp_of u = t) xs)"
proof (cases "length xs < 2")
  case True
  then show ?thesis
    using descending_short[of xs timestamp_of]
    by (simp add: py_sorted_reverse_timestamps[OF assms])
next
  case False
  then show ?thesis
    using mset_sorted_pairs[of timestamp_of xs] descending_sorted_pairs[of xs]
      stable_sorted_pairs[of timestamp_of _ xs]
    by (simp only: py_sorted_reverse_timestamps[OF assms] if_False) blast
qed

subsection \<open>The storage file\<close>

lemma ensure_cases:
  "ensure_data_file_exists NoDir = (Inr (), File ''[]'')"
  "ensure_data_file_exists NoFile = (Inr (), File ''[]'')"
  "ensure_data_file_exists (File t) = (Inr (), File t)"
  "ensure_data_file_exists NotADir = (Inl NotADirectoryError, NotADir)"
  by (simp_all add: ensure_data_file_exists_def)

lemma load_users_File:
  "load_users lib (File t) =
     ((case json_loads lib t of None \<Rightarrow> Inr (JArr []) | Some v \<Rightarrow> Inr v), File t)"
  by (simp add: load_users_def ensure_cases)


text \<open>A load that returns leaves the file in place, and loading again gives the same.\<close>

lemma load_users_ok:
  assumes "load_users lib s = (Inr v, s1)"
  shows "\<exists>t. s1 = File t \<and> ensure_data_file_exists s = (Inr (), s1)
     \<and> load_users lib s1 = (Inr v, s1)"
  using assms by (cases s) (auto simp: load_users_def ensure_cases split: option.splits)


lemma save_user_entry_not_list:
  assumes "load_users lib s = (Inr v, s1)" "\<forall>xs. v \<noteq> JArr xs"
  shows "save_user_entry lib entry s = (Inl AttributeError, s1)"
proof -
  from load_users_ok[OF assms(1)] obtain t where
    t: "s1 = File t" "ensure_data_file_exists s = (Inr (), s1)" "load_users lib s1 = (Inr v, s1)"
    by blast
  show ?thesis using assms(2) by (cases v) (simp_all add: save_user_entry_def t(2,3))
qed

lemma save_user_entry_NotADir:
  "save_user_entry lib entry NotADir = (Inl NotADirectoryError, NotADir)"
  by (simp add: save_user_entry_def ensure_cases)

lemma dashboard_list:
  assumes "load_users lib s = (Inr (JArr xs), s1)"
  shows "dashboard lib s = (py_sorted_reverse timestamp_key xs, s1)"
  by (simp add: dashboard_def assms)

lemma descending_empty_last:
  assumes "descending ks" "i < length ks" "j < length ks" "ks ! i = []" "ks ! j \<noteq> []"
  shows "j < i"
proof (rule ccontr)
  assume "\<not> j < i"
  with assms(4,5) have "i < j" by (cases "i = j") auto
  with assms(1,3) have "ks ! j \<le> ks ! i"
    by (simp add: descending_def sorted_wrt_iff_nth_less)
  with assms(4,5) show False by simp
qed

subsection \<open>The sample store\<close>

lemma sample_loads:
  "json_loads sample_lib ''[]'' = Some (JArr [])"
  "json_loads sample_lib ''not json'' = None"
  "json_loads sample_lib (json_dumps sample_lib (JArr [entry_ann])) = Some (JArr [entry_ann])"
  "json_loads sample_lib (json_dumps sample_lib (JArr [entry_ann, entry_bob]))
     = Some (JArr [entry_ann, entry_bob])"
  "json_loads sample_lib (json_dumps sample_lib (JArr [entry_cy, entry_ann]))
     = Some (JArr [entry_cy, entry_ann])"
  by (simp_all add: sample_lib_def sample_texts_def entry_ann_def entry_bob_def entry_cy_def)

lemma sample_timestamps:
  "has_string_timestamp entry_ann" "has_string_timestamp entry_bob" "has_string_timestamp entry_cy"
  "timestamp_of entry_ann = ''2024-01-15T10:30:00.123456Z''"
  "timestamp_of entry_bob = ''2024-02-01T08:00:00.000001Z''"
  "timestamp_of entry_cy = []"
  by (simp_all add: has_string_timestamp_def timestamp_of_def entry_ann_def entry_bob_def
      entry_cy_def)


lemma sample_sorted:
  "py_sorted_reverse timestamp_key [entry_ann, entry_bob] = Inr [entry_bob, entry_ann]"
  "py_sorted_reverse timestamp_key [entry_cy, entry_ann] = Inr [entry_ann, entry_cy]"
  by (simp_all add: py_sorted_reverse_timestamps sample_timestamps)

section \<open>The claims\<close>

subsection \<open>C1: the Mifflin-St Jeor formula\<close>

text \<open>
  C1 (amended).  For every weight, height and gender string, and every age whose
  magnitude is below \<open>2^1024 - 2^970\<close> (the integers Python converts to a float),
  \<open>calculate_bmr_mifflin_st_jeor\<close> returns \<open>10*weight + 6.25*height - 5*age + 5\<close> when the
  gender is case-insensitively equal to \<open>male\<close> and \<open>10*weight + 6.25*height - 5*age - 161\<close>
  for every other gender string, each operation being the float operation of the source;
  no such input, non-positive weight, height or age included, makes it fault.
\<close>

theorem bmr_formula:
  assumes "\<bar>age_years\<bar> < 2 ^ 1024 - 2 ^ 970"
  shows "\<exists>age. float_of_int age_years = Inr age \<and> is_finite age \<and>
     calculate_bmr_mifflin_st_jeor weight_kg height_cm age_years gender =
       Inr (if case_insensitive_equal gender ''male''
            then fadd (fsub (fadd (fmul (float_lit 10) weight_kg)
                                  (fmul (float_lit (625 / 100)) height_cm))
                            (fmul (float_lit 5) age))
                      (float_lit 5)
            else fsub (fsub (fadd (fmul (float_lit 10) weight_kg)
                                  (fmul (float_lit (625 / 100)) height_cm))
                            (fmul (float_lit 5) age))
                      (float_lit 161))"
proof -
  from float_of_int_ok[OF assms] obtain y where y: "float_of_int age_years = Inr (Fin y)"
    by blast
  show ?thesis
    unfolding calculate_bmr_mifflin_st_jeor_def y lower_male_iff
    by (simp add: Let_def)
qed

theorem bmr_formula_witness:
  "\<bar>30 :: int\<bar> < 2 ^ 1024 - 2 ^ 970
   \<and> case_insensitive_equal ''Male'' ''male''
   \<and> calculate_bmr_mifflin_st_jeor (Fin 80) (Fin 180) 30 ''Male'' = Inr (Fin 1780)
   \<and> \<not> case_insensitive_equal ''female'' ''male''
   \<and> calculate_bmr_mifflin_st_jeor (Fin 80) (Fin 180) 30 ''female'' = Inr (Fin 1614)"
proof -
  have b: "\<bar>30 :: int\<bar> < 2 ^ 1024 - 2 ^ 970" by simp
  have m: "case_insensitive_equal ''Male'' ''male''"
    using lower_male(2) unfolding lower_male_iff .
  have f: "\<not> case_insensitive_equal ''female'' ''male''"
    using lower_male(3) unfolding lower_male_iff .
  from bmr_formula[OF b, of "Fin 80" "Fin 180" "''Male''"] m
  have "calculate_bmr_mifflin_st_jeor (Fin 80) (Fin 180) 30 ''Male'' = Inr (Fin 1780)"
    by (simp add: float_of_int_30 float_lits fmul_def fadd_def fsub_def
        fl_800 fl_1125 fl_1925 fl_150 fl_1775 fl_1780)
  moreover from bmr_formula[OF b, of "Fin 80" "Fin 180" "''female''"] f
  have "calculate_bmr_mifflin_st_jeor (Fin 80) (Fin 180) 30 ''female'' = Inr (Fin 1614)"
    by (simp add: float_of_int_30 float_lits fmul_def fadd_def fsub_def
        fl_800 fl_1125 fl_1925 fl_150 fl_1775 fl_1614)
  ultimately show ?thesis using b m f by blast
qed

text \<open>
  The claim as stated fails on the age: \<open>5.0 * age_years\<close> converts the integer to a
  float, and Python raises \<open>OverflowError\<close> for an integer as large as \<open>2^1024\<close>.
\<close>

theorem bmr_no_fault_counterexample:
  "calculate_bmr_mifflin_st_jeor (Fin 70) (Fin 170) (2 ^ 1024) ''male'' = Inl OverflowError"
  by (simp only: calculate_bmr_mifflin_st_jeor_def float_of_int_overflow sum.case)

subsection \<open>C2: the macro split\<close>

text \<open>
  C2.  For every total and weight, \<open>compute_macros\<close> returns protein \<open>1.8 * weight\<close>, fat
  \<open>0.8 * weight\<close> and carbohydrates \<open>max(total - (protein*4 + fat*9), 0) / 4\<close>; the division
  never raises, the carbohydrates never compare below zero, and protein and fat are the
  plain products, never clamped.  In particular \<open>compute_macros(0, 70)\<close> gives protein 126,
  fat 56 and carbohydrates 0.
\<close>

theorem compute_macros_formula:
  "(\<exists>c. py_truediv
          (py_max (fsub total_calories
                        (fadd (fmul (fmul (float_lit (18 / 10)) weight_kg) (float_lit 4))
                              (fmul (fmul (float_lit (8 / 10)) weight_kg) (float_lit 9))))
                  (float_lit 0))
          (float_lit 4) = Inr c
      \<and> compute_macros total_calories weight_kg =
          Inr \<lparr>protein_g = fmul (float_lit (18 / 10)) weight_kg,
               fat_g = fmul (float_lit (8 / 10)) weight_kg,
               carb_g = c\<rparr>
      \<and> \<not> flt c (float_lit 0))
   \<and> compute_macros (Fin 0) (Fin 70) =
        Inr \<lparr>protein_g = Fin 126, fat_g = Fin 56, carb_g = Fin 0\<rparr>"
proof -
  define m where "m = py_max (fsub total_calories
      (fadd (fmul (fmul (float_lit (18 / 10)) weight_kg) (float_lit 4))
            (fmul (fmul (float_lit (8 / 10)) weight_kg) (float_lit 9)))) (Fin 0)"
  have nn: "\<not> flt m (Fin 0)" unfolding m_def by (rule py_max_zero_not_negative)
  from truediv_4[of m] nn obtain c where c: "py_truediv m (Fin 4) = Inr c" "\<not> flt c (Fin 0)"
    by blast
  have "compute_macros total_calories weight_kg =
      Inr \<lparr>protein_g = fmul (float_lit (18 / 10)) weight_kg,
           fat_g = fmul (float_lit (8 / 10)) weight_kg, carb_g = c\<rparr>"
    using c(1) unfolding compute_macros_def Let_def float_lit_0 float_lit_4 m_def by simp
  then show ?thesis
    using c macros_0_70 unfolding m_def float_lit_0 float_lit_4 by blast
qed

theorem compute_macros_formula_witness:
  "compute_macros (Fin 2759) (Fin 80) =
     Inr \<lparr>protein_g = Fin 144, fat_g = Fin 64, carb_g = Fin (1607 / 4)\<rparr>
   \<and> \<not> flt (Fin (1607 / 4)) (float_lit 0)"
proof -
  from compute_macros_formula[of "Fin 2759" "Fin 80"] obtain c where
    c: "compute_macros (Fin 2759) (Fin 80) =
          Inr \<lparr>protein_g = fmul (float_lit (18 / 10)) (Fin 80),
               fat_g = fmul (float_lit (8 / 10)) (Fin 80), carb_g = c\<rparr>"
      "\<not> flt c (float_lit 0)"
    by blast
  from c(1) have "c = Fin (1607 / 4)" by (simp add: macros_ex)
  with c(2) show ?thesis by (simp add: macros_ex)
qed

subsection \<open>C3: the activity multiplier\<close>

text \<open>
  C3.  For every input string \<open>activity_multiplier\<close> returns one of the five values
  1.2, 1.375, 1.55, 1.725 and 1.9 (five different floats): \<open>sedentary\<close> gives 1.2, \<open>light\<close>
  1.375, \<open>moderate\<close> 1.55, \<open>very\<close> 1.725, \<open>extra\<close> 1.9, and every string that is none of
  these five keys, the empty string among them, gives 1.2.  The function has no failing
  branch.
\<close>

theorem activity_multiplier_table:
  "activity_multiplier level \<in>
     {float_lit (12 / 10), float_lit (1375 / 1000), float_lit (155 / 100),
      float_lit (1725 / 1000), float_lit (19 / 10)}
   \<and> distinct [float_lit (12 / 10), float_lit (1375 / 1000), float_lit (155 / 100),
      float_lit (1725 / 1000), float_lit (19 / 10)]
   \<and> activity_multiplier ''sedentary'' = float_lit (12 / 10)
   \<and> activity_multiplier ''light'' = float_lit (1375 / 1000)
   \<and> activity_multiplier ''moderate'' = float_lit (155 / 100)
   \<and> activity_multiplier ''very'' = float_lit (1725 / 1000)
   \<and> activity_multiplier ''extra'' = float_lit (19 / 10)
   \<and> (level \<notin> {''sedentary'', ''light'', ''moderate'', ''very'', ''extra''}
        \<longrightarrow> activity_multiplier level = float_lit (12 / 10))
   \<and> activity_multiplier [] = float_lit (12 / 10)"
proof -
  have d: "distinct [float_lit (12 / 10), float_lit (1375 / 1000), float_lit (155 / 100),
      float_lit (1725 / 1000), float_lit (19 / 10)]"
    by (simp add: float_lits)
  show ?thesis
    using d by (simp add: activity_multiplier_def mapping_def)
qed

theorem activity_multiplier_table_witness:
  "''couch'' \<notin> {''sedentary'', ''light'', ''moderate'', ''very'', ''extra''}
   \<and> activity_multiplier ''couch'' = float_lit (12 / 10)
   \<and> activity_multiplier ''couch'' = Fin (5404319552844595 / 4503599627370496)"
  using activity_multiplier_table [of "''couch''"] by (simp add: float_lit_1_2)

subsection \<open>C4: the worked example\<close>

text \<open>
  C4 (amended).  For height 180, weight 80, age 30, gender \<open>male\<close> and activity level
  \<open>moderate\<close>, the unrounded BMR is 1780 and the unrounded TDEE is 2759, and \<open>calculate\<close>
  (nothing saved) shows calories 2759, protein 144, fat 64 and carbohydrates 402, and
  leaves the store as it was.
\<close>

theorem calculate_worked_example:
  "calculate_bmr_mifflin_st_jeor (Fin 80) (Fin 180) 30 ''male'' = Inr (Fin 1780)
   \<and> fmul (Fin 1780) (activity_multiplier ''moderate'') = Fin 2759
   \<and> calculate lib utcnow name (Fin 180) (Fin 80) 30 ''male'' ''moderate'' None s =
       (Inr (\<lparr>res_calories = 2759, res_protein_g = 144, res_fat_g = 64, res_carb_g = 402,
              res_bmr = 1780, res_activity_multiplier = float_lit (155 / 100)\<rparr>, False), s)"
  by (simp add: bmr_ex tdee_ex calculate_def result_ex)

theorem calculate_worked_example_witness:
  "calculate sample_lib ''2024-01-15T10:30:00.123456'' ''Ann'' (Fin 180) (Fin 80) 30 ''male''
       ''moderate'' None NoDir =
     (Inr (\<lparr>res_calories = 2759, res_protein_g = 144, res_fat_g = 64, res_carb_g = 402,
            res_bmr = 1780, res_activity_multiplier = Fin (6980579422424269 / 4503599627370496)\<rparr>,
           False), NoDir)"
  using calculate_worked_example [of sample_lib "''2024-01-15T10:30:00.123456''" "''Ann''" NoDir]
  by (simp add: float_lit_1_55)

text \<open>
  The figures of the claim (BMR 1692.5, TDEE 2623.375, calories 2623, carbohydrates 368)
  are not what the code computes at this input: \<open>10*80 + 6.25*180 - 5*30 + 5\<close> is 1780.
  They are the figures of height 166.
\<close>

theorem calculate_worked_example_counterexample:
  "calculate_bmr_mifflin_st_jeor (Fin 80) (Fin 180) 30 ''male'' \<noteq> Inr (Fin (16925 / 10))
   \<and> fmul (Fin 1780) (activity_multiplier ''moderate'') \<noteq> Fin (2623375 / 1000)
   \<and> (\<exists>r. calculate_result (Fin 180) (Fin 80) 30 ''male'' ''moderate'' = Inr r
          \<and> res_calories r \<noteq> 2623 \<and> res_carb_g r \<noteq> 368
          \<and> res_protein_g r = 144 \<and> res_fat_g r = 64)"
  by (simp add: bmr_ex tdee_ex result_ex)

subsection \<open>C5: appending, then listing\<close>



subsection \<open>C6: loading\<close>




subsection \<open>C7: appending keeps what was stored\<close>



subsection \<open>C8: rounding for display\<close>

text \<open>
  C8.  Whenever the unrounded TDEE, macros and BMR are finite, \<open>calculate_result\<close> (the
  steps of \<open>calculate\<close> before saving) returns, and calories, protein, fat, carbohydrates
  and the displayed BMR are each the nearest integer to the unrounded value, a value
  exactly halfway between two integers going to the even one.
\<close>

theorem calculate_rounds_half_even:
  assumes bmr: "calculate_bmr_mifflin_st_jeor weight_kg height_cm age_years gender = Inr bmr"
    and tdee: "tdee = fmul bmr (activity_multiplier activity_level)"
    and macros: "compute_macros tdee weight_kg = Inr macros"
    and fin: "is_finite tdee" "is_finite (protein_g macros)" "is_finite (fat_g macros)"
      "is_finite (carb_g macros)" "is_finite bmr"
  shows "\<exists>r. calculate_result height_cm weight_kg age_years gender activity_level = Inr r
     \<and> nearest_half_even (val tdee) (res_calories r)
     \<and> nearest_half_even (val (protein_g macros)) (res_protein_g r)
     \<and> nearest_half_even (val (fat_g macros)) (res_fat_g r)
     \<and> nearest_half_even (val (carb_g macros)) (res_carb_g r)
     \<and> nearest_half_even (val bmr) (res_bmr r)"
proof -
  obtain c where c: "py_round tdee = Inr c" "nearest_half_even (val tdee) c"
    using py_round_finite_nearest[OF fin(1)] by blast
  obtain p where p: "py_round (protein_g macros) = Inr p"
      "nearest_half_even (val (protein_g macros)) p"
    using py_round_finite_nearest[OF fin(2)] by blast
  obtain f where f: "py_round (fat_g macros) = Inr f" "nearest_half_even (val (fat_g macros)) f"
    using py_round_finite_nearest[OF fin(3)] by blast
  obtain cb where cb: "py_round (carb_g macros) = Inr cb"
      "nearest_half_even (val (carb_g macros)) cb"
    using py_round_finite_nearest[OF fin(4)] by blast
  obtain b where b: "py_round bmr = Inr b" "nearest_half_even (val bmr) b"
    using py_round_finite_nearest[OF fin(5)] by blast
  have "calculate_result height_cm weight_kg age_years gender activity_level =
      Inr \<lparr>res_calories = c, res_protein_g = p, res_fat_g = f, res_carb_g = cb, res_bmr = b,
           res_activity_multiplier = activity_multiplier activity_level\<rparr>"
    using macros c(1) p(1) f(1) cb(1) b(1)
    unfolding calculate_result_def bmr Let_def tdee
    by (simp del: py_round.simps)
  then show ?thesis using c(2) p(2) f(2) cb(2) b(2) by simp
qed

text \<open>At height 166 the BMR is 1692.5 and is shown as 1692, not 1693.\<close>

theorem calculate_rounds_half_even_witness:
  "calculate_bmr_mifflin_st_jeor (Fin 80) (Fin 166) 30 ''male'' = Inr (Fin (3385 / 2))
   \<and> (\<exists>r. calculate_result (Fin 166) (Fin 80) 30 ''male'' ''moderate'' = Inr r
        \<and> res_bmr r = 1692 \<and> nearest_half_even (3385 / 2) (res_bmr r)
        \<and> res_calories r = 2623 \<and> nearest_half_even (20987 / 8) (res_calories r)
        \<and> res_carb_g r = 368 \<and> nearest_half_even (11771 / 32) (res_carb_g r))"
proof -
  have m: "compute_macros (Fin (20987 / 8)) (Fin 80) =
      Inr \<lparr>protein_g = Fin 144, fat_g = Fin 64, carb_g = Fin (11771 / 32)\<rparr>"
    by (rule macros_tie)
  from calculate_rounds_half_even[OF bmr_tie tdee_tie[symmetric] m]
  obtain r where r: "calculate_result (Fin 166) (Fin 80) 30 ''male'' ''moderate'' = Inr r"
      "nearest_half_even (20987 / 8) (res_calories r)"
      "nearest_half_even (11771 / 32) (res_carb_g r)"
      "nearest_half_even (3385 / 2) (res_bmr r)"
    by auto
  from r(1) have "res_bmr r = 1692" "res_calories r = 2623" "res_carb_g r = 368"
    by (auto simp: result_tie)
  then show ?thesis using r bmr_tie by blast
qed

subsection \<open>C9: the difference between the two formulas\<close>

text \<open>
  C9 (amended).  For every weight, every height above zero and every age above zero for
  which the common term \<open>base = 10*weight + 6.25*height - 5*age\<close> is finite and both
  \<open>base + 5\<close> and \<open>base - 161\<close> are binary64 values (so that neither result is rounded), the
  result for \<open>male\<close> minus the result for \<open>female\<close> is exactly 166.
\<close>

theorem bmr_difference_exact:
  assumes age: "float_of_int age_years = Inr age"
    and base: "base = fsub (fadd (fmul (float_lit 10) weight_kg)
                                 (fmul (float_lit (625 / 100)) height_cm))
                           (fmul (float_lit 5) age)"
    and fin: "is_finite base"
    and ex: "is_double (val base + 5)" "is_double (val base - 161)"
    and pos: "flt (Fin 0) height_cm" "0 < age_years"
  shows "\<exists>m f. calculate_bmr_mifflin_st_jeor weight_kg height_cm age_years ''male'' = Inr m
     \<and> calculate_bmr_mifflin_st_jeor weight_kg height_cm age_years ''female'' = Inr f
     \<and> fsub m f = Fin 166"
proof -
  have m: "calculate_bmr_mifflin_st_jeor weight_kg height_cm age_years ''male''
      = Inr (fadd base (Fin 5))"
    by (simp add: calculate_bmr_mifflin_st_jeor_def age Let_def lower_male base float_lit_5)
  have f: "calculate_bmr_mifflin_st_jeor weight_kg height_cm age_years ''female''
      = Inr (fsub base (Fin 161))"
    by (simp add: calculate_bmr_mifflin_st_jeor_def age Let_def lower_male base float_lit_161)
  have m': "fadd base (Fin 5) = Fin (val base + 5)"
    using fadd_exact[of base "Fin 5"] fin ex(1) by simp
  have f': "fsub base (Fin 161) = Fin (val base - 161)"
    using fadd_exact[of base "Fin (- 161)"] fin ex(2) finite_val_sign[of base 161]
    by (auto simp: fsub_def)
  have "fsub (Fin (val base + 5)) (Fin (val base - 161)) = Fin 166"
    by (simp add: fsub_def fadd_def fl_166)
  then show ?thesis using m f m' f' by simp
qed

theorem bmr_difference_exact_witness:
  "float_of_int 30 = Inr (Fin 30)
   \<and> is_double (1775 + 5) \<and> is_double (1775 - 161)
   \<and> flt (Fin 0) (Fin 180) \<and> (0 :: int) < 30
   \<and> (\<exists>m f. calculate_bmr_mifflin_st_jeor (Fin 80) (Fin 180) 30 ''male'' = Inr m
     \<and> calculate_bmr_mifflin_st_jeor (Fin 80) (Fin 180) 30 ''female'' = Inr f
     \<and> fsub m f = Fin 166)"
proof -
  have d: "is_double (val (Fin 1775) + 5)" "is_double (val (Fin 1775) - 161)"
    using is_double_1780 is_double_1614 by simp_all
  have "\<exists>m f. calculate_bmr_mifflin_st_jeor (Fin 80) (Fin 180) 30 ''male'' = Inr m
     \<and> calculate_bmr_mifflin_st_jeor (Fin 80) (Fin 180) 30 ''female'' = Inr f
     \<and> fsub m f = Fin 166"
    by (rule bmr_difference_exact[OF float_of_int_30 base_ex[symmetric] _ d]) simp_all
  then show ?thesis
    using float_of_int_30 is_double_1780 is_double_1614 by simp
qed

text \<open>
  Without the condition the difference is not always 166: the two results are rounded
  separately.  At weight 0.01, height 1 and age 30 it is 165.99999999999997, and at weight
  \<open>2^60\<close>, height 1 and age 1 both results are the same float and it is 0.
\<close>

theorem bmr_difference_counterexample:
  "flt (Fin 0) (Fin 1) \<and> (0 :: int) < 30 \<and> (0 :: int) < 1
   \<and> (\<exists>m f. calculate_bmr_mifflin_st_jeor (float_lit (1 / 100)) (Fin 1) 30 ''male'' = Inr m
        \<and> calculate_bmr_mifflin_st_jeor (float_lit (1 / 100)) (Fin 1) 30 ''female'' = Inr f
        \<and> fsub m f = Fin (5840605766746111 / 35184372088832)
        \<and> fsub m f \<noteq> Fin 166)
   \<and> (\<exists>m f. calculate_bmr_mifflin_st_jeor (Fin 1152921504606846976) (Fin 1) 1 ''male'' = Inr m
        \<and> calculate_bmr_mifflin_st_jeor (Fin 1152921504606846976) (Fin 1) 1 ''female'' = Inr f
        \<and> fsub m f = Fin 0
        \<and> fsub m f \<noteq> Fin 166)"
proof -
  have "fsub (Fin (- (4878313190116557 / 35184372088832))) (Fin (- (2679729739215667 / 8796093022208)))
      = Fin (5840605766746111 / 35184372088832)"
    by (simp add: fsub_def fadd_def fl_diff)
  moreover have "fsub (Fin 11529215046068469760) (Fin 11529215046068469760) = Fin 0"
    by (simp add: fsub_def fadd_def signed_zero_def)
  ultimately show ?thesis
    by (simp add: bmr_small_male bmr_small_female bmr_big_male bmr_big_female)
qed

subsection \<open>C10: entries without a timestamp\<close>

text \<open>
  C10.  An entry without a \<open>timestamp\<close> member is sorted under the empty string.  When
  every stored entry is an object whose timestamp is a string or is missing, \<open>dashboard\<close>
  does not fail, lists exactly the stored entries, and every entry whose key is the empty
  string comes after every entry whose timestamp is a non-empty string.
\<close>

theorem missing_timestamp_sorts_last:
  assumes "load_users lib s = (Inr (JArr xs), s1)"
    and "\<forall>u\<in>set xs. has_string_timestamp u"
  shows "(\<forall>kvs. map_of kvs ''timestamp'' = None \<longrightarrow> timestamp_key (JObj kvs) = Inr (JStr []))
     \<and> (\<exists>ys. dashboard lib s = (Inr ys, s1) \<and> mset ys = mset xs
          \<and> (\<forall>i j. i < length ys \<and> j < length ys \<and> timestamp_of (ys ! i) = []
                \<and> timestamp_of (ys ! j) \<noteq> [] \<longrightarrow> j < i))"
proof -
  from listing_properties[OF assms(2)] obtain ys where
    ys: "py_sorted_reverse timestamp_key xs = Inr ys" "mset ys = mset xs"
      "descending (map timestamp_of ys)"
    by blast
  have "j < i" if "i < length ys" "j < length ys" "timestamp_of (ys ! i) = []"
      "timestamp_of (ys ! j) \<noteq> []" for i j
    using descending_empty_last[OF ys(3), of i j] that by simp
  then show ?thesis
    using ys by (simp add: dashboard_list[OF assms(1)])
qed

theorem missing_timestamp_sorts_last_witness:
  "load_users sample_lib (File (json_dumps sample_lib (JArr [entry_cy, entry_ann])))
     = (Inr (JArr [entry_cy, entry_ann]),
        File (json_dumps sample_lib (JArr [entry_cy, entry_ann])))
   \<and> timestamp_key entry_cy = Inr (JStr [])
   \<and> timestamp_of entry_ann \<noteq> []
   \<and> dashboard sample_lib (File (json_dumps sample_lib (JArr [entry_cy, entry_ann])))
     = (Inr [entry_ann, entry_cy], File (json_dumps sample_lib (JArr [entry_cy, entry_ann])))"
proof -
  have l: "load_users sample_lib (File (json_dumps sample_lib (JArr [entry_cy, entry_ann])))
     = (Inr (JArr [entry_cy, entry_ann]),
        File (json_dumps sample_lib (JArr [entry_cy, entry_ann])))"
    by (simp add: load_users_File sample_loads)
  have k: "\<forall>u\<in>set [entry_cy, entry_ann]. has_string_timestamp u"
    by (simp add: sample_timestamps)
  from missing_timestamp_sorts_last[OF l k] obtain ys where
    ys: "dashboard sample_lib (File (json_dumps sample_lib (JArr [entry_cy, entry_ann])))
          = (Inr ys, File (json_dumps sample_lib (JArr [entry_cy, entry_ann])))"
    by blast
  have "dashboard sample_lib (File (json_dumps sample_lib (JArr [entry_cy, entry_ann])))
      = (Inr [entry_ann, entry_cy], File (json_dumps sample_lib (JArr [entry_cy, entry_ann])))"
    by (simp add: dashboard_list[OF l] sample_sorted)
  moreover have "timestamp_key entry_cy = Inr (JStr [])" by (simp add: entry_cy_def)
  ultimately show ?thesis using l ys by (simp add: sample_timestamps)
qed

end
